theory Spec2Isabelle
  imports Main
begin

section \<open>Python primitives used by generate.py\<close>

text \<open>
  Python integers are unbounded: the scale \<open>n\<close> and the release index are \<open>int\<close>.
  Python strings are \<open>string\<close>; every character that the generator itself emits into a
  manifest is ASCII.
\<close>

definition digit_char :: "nat \<Rightarrow> char" where
  "digit_char d = ''0123456789'' ! d"

text \<open>The decimal digits of a natural number, most significant first, no leading zero.\<close>

fun str_nat :: "nat \<Rightarrow> string" where
  "str_nat n = (if n < 10 then [digit_char n] else str_nat (n div 10) @ [digit_char (n mod 10)])"

declare str_nat.simps [simp del]

text \<open>\<^verbatim>\<open>str(x)\<close>, which is also what \<^verbatim>\<open>f"{x}"\<close> gives for an int.\<close>

definition str_int :: "int \<Rightarrow> string" where
  "str_int x = (if x < 0 then CHR ''-'' # str_nat (nat (- x)) else str_nat (nat x))"

text \<open>
  \<^verbatim>\<open>f"{x:0Wd}"\<close>: the sign first, then zeros up to a total width of \<open>W\<close>, then the
  digits. A number with more digits than the width is printed in full.
\<close>

definition fmt_0d :: "nat \<Rightarrow> int \<Rightarrow> string" where
  "fmt_0d w x =
     (if x < 0
      then CHR ''-'' # replicate (w - 1 - length (str_nat (nat (- x)))) CHR ''0'' @ str_nat (nat (- x))
      else replicate (w - length (str_nat (nat x))) CHR ''0'' @ str_nat (nat x))"

text \<open>\<^verbatim>\<open>range(n)\<close>: empty when \<open>n \<le> 0\<close>.\<close>

definition range_py :: "int \<Rightarrow> int list" where
  "range_py n = map int [0..<nat n]"

text \<open>\<^verbatim>\<open>enumerate(xs)\<close>.\<close>

definition enumerate_py :: "'a list \<Rightarrow> (int \<times> 'a) list" where
  "enumerate_py xs = zip (range_py (int (length xs))) xs"

text \<open>\<^verbatim>\<open>sep.join(xs)\<close>. The same function on lists of any kind is used below on lists of lines.\<close>

fun join :: "'a list \<Rightarrow> 'a list list \<Rightarrow> 'a list" where
  "join sep [] = []"
| "join sep [x] = x"
| "join sep (x # y # ys) = x @ sep @ join sep (y # ys)"

section \<open>Name derivation\<close>

definition all_configmap_names :: "int \<Rightarrow> string list" where
  "all_configmap_names n =
     [''r'' @ fmt_0d 3 r @ ''-config-'' @ fmt_0d 3 i. r \<leftarrow> range_py n, i \<leftarrow> range_py n]"

definition all_service_fqdns :: "int \<Rightarrow> string list" where
  "all_service_fqdns n =
     [''r'' @ fmt_0d 3 r @ ''-app-'' @ fmt_0d 3 i @ ''.default.svc.cluster.local''.
        r \<leftarrow> range_py n, i \<leftarrow> range_py n]"

section \<open>Release document assembly\<close>

definition prefix :: "int \<Rightarrow> string" where
  "prefix release_idx = ''r'' @ fmt_0d 3 release_idx"

text \<open>The document appended by one pass of the ConfigMap loop.\<close>

definition configmap_doc :: "int \<Rightarrow> int \<Rightarrow> string" where
  \<open>configmap_doc release_idx i =
     ''apiVersion: v1\<newline>'' @
     ''kind: ConfigMap\<newline>'' @
     ''metadata:\<newline>'' @
     ''  name: '' @ prefix release_idx @ ''-config-'' @ fmt_0d 3 i @ ''\<newline>'' @
     ''  namespace: default\<newline>'' @
     ''data:\<newline>'' @
     ''  SETTING_A: "value-a-'' @ str_int release_idx @ ''-'' @ str_int i @ ''"\<newline>'' @
     ''  SETTING_B: "value-b-'' @ str_int release_idx @ ''-'' @ str_int i @ ''"\<newline>'' @
     ''  config.yaml: |\<newline>'' @
     ''    key: release-'' @ str_int release_idx @ ''-cm-'' @ str_int i @ ''\<newline>''\<close>

text \<open>The document appended by one pass of the Secret loop.\<close>

definition secret_doc :: "int \<Rightarrow> int \<Rightarrow> string" where
  "secret_doc release_idx i =
     ''apiVersion: v1\<newline>'' @
     ''kind: Secret\<newline>'' @
     ''metadata:\<newline>'' @
     ''  name: '' @ prefix release_idx @ ''-secret-'' @ fmt_0d 3 i @ ''\<newline>'' @
     ''  namespace: default\<newline>'' @
     ''type: Opaque\<newline>'' @
     ''data:\<newline>'' @
     ''  password: cGFzc3dvcmQ=\<newline>'' @
     ''  token: dG9rZW4xMjM=\<newline>''"

text \<open>
  The four generator expressions of the Deployment loop. Each \<open>_entry\<close> function is the
  f-string of one generator; the joined text keeps the name the source gives it.
\<close>

definition volume_mount_entry :: "int \<Rightarrow> string" where
  "volume_mount_entry idx =
     ''            - name: cm-'' @ fmt_0d 4 idx @ ''\<newline>'' @
     ''              mountPath: /etc/config/'' @ fmt_0d 4 idx @ ''\<newline>'' @
     ''              readOnly: true''"

definition volume_mount_entries :: "string list \<Rightarrow> string list" where
  "volume_mount_entries cm_names =
     [volume_mount_entry idx. idx \<leftarrow> range_py (int (length cm_names))]"

definition volume_mounts :: "string list \<Rightarrow> string" where
  "volume_mounts cm_names = join ''\<newline>'' (volume_mount_entries cm_names)"

definition volume_entry :: "int \<Rightarrow> string \<Rightarrow> string" where
  "volume_entry idx name =
     ''        - name: cm-'' @ fmt_0d 4 idx @ ''\<newline>'' @
     ''          configMap:\<newline>'' @
     ''            name: '' @ name"

definition volume_entries :: "string list \<Rightarrow> string list" where
  "volume_entries cm_names = [volume_entry idx name. (idx, name) \<leftarrow> enumerate_py cm_names]"

definition volumes :: "string list \<Rightarrow> string" where
  "volumes cm_names = join ''\<newline>'' (volume_entries cm_names)"

definition env_var_entry :: "int \<Rightarrow> string \<Rightarrow> string" where
  \<open>env_var_entry idx fqdn =
     ''            - name: SVC_'' @ fmt_0d 4 idx @ ''\<newline>'' @
     ''              value: "http://'' @ fqdn @ '':8080/api"''\<close>

definition env_var_entries :: "string list \<Rightarrow> string list" where
  "env_var_entries fqdns = [env_var_entry idx fqdn. (idx, fqdn) \<leftarrow> enumerate_py fqdns]"

definition env_vars :: "string list \<Rightarrow> string" where
  "env_vars fqdns = join ''\<newline>'' (env_var_entries fqdns)"

definition env_from_entry :: "int \<Rightarrow> int \<Rightarrow> string" where
  "env_from_entry release_idx j =
     ''            - secretRef:\<newline>'' @
     ''                name: '' @ prefix release_idx @ ''-secret-'' @ fmt_0d 3 j"

definition env_from_entries :: "int \<Rightarrow> int \<Rightarrow> string list" where
  "env_from_entries release_idx n = [env_from_entry release_idx j. j \<leftarrow> range_py n]"

definition env_from :: "int \<Rightarrow> int \<Rightarrow> string" where
  "env_from release_idx n = join ''\<newline>'' (env_from_entries release_idx n)"

text \<open>The document appended by one pass of the Deployment loop.\<close>

definition deployment_doc :: "int \<Rightarrow> int \<Rightarrow> string list \<Rightarrow> string list \<Rightarrow> int \<Rightarrow> string" where
  "deployment_doc release_idx n cm_names fqdns i =
     ''apiVersion: apps/v1\<newline>'' @
     ''kind: Deployment\<newline>'' @
     ''metadata:\<newline>'' @
     ''  name: '' @ prefix release_idx @ ''-app-'' @ fmt_0d 3 i @ ''\<newline>'' @
     ''  namespace: default\<newline>'' @
     ''  labels:\<newline>'' @
     ''    app: '' @ prefix release_idx @ ''-app-'' @ fmt_0d 3 i @ ''\<newline>'' @
     ''spec:\<newline>'' @
     ''  replicas: 1\<newline>'' @
     ''  selector:\<newline>'' @
     ''    matchLabels:\<newline>'' @
     ''      app: '' @ prefix release_idx @ ''-app-'' @ fmt_0d 3 i @ ''\<newline>'' @
     ''  template:\<newline>'' @
     ''    metadata:\<newline>'' @
     ''      labels:\<newline>'' @
     ''        app: '' @ prefix release_idx @ ''-app-'' @ fmt_0d 3 i @ ''\<newline>'' @
     ''    spec:\<newline>'' @
     ''      initContainers:\<newline>'' @
     ''        - name: init\<newline>'' @
     ''          image: busybox:1.36\<newline>'' @
     ''          command: ['sh', '-c', 'echo init-'' @ prefix release_idx @ ''-'' @ str_int i @
       [CHR 0x27] @ '']\<newline>'' @
     ''      containers:\<newline>'' @
     ''        - name: main\<newline>'' @
     ''          image: nginx:1.27-alpine\<newline>'' @
     ''          ports:\<newline>'' @
     ''            - containerPort: 8080\<newline>'' @
     ''          env:\<newline>'' @
     env_vars fqdns @ ''\<newline>'' @
     ''          envFrom:\<newline>'' @
     env_from release_idx n @ ''\<newline>'' @
     ''          volumeMounts:\<newline>'' @
     volume_mounts cm_names @ ''\<newline>'' @
     ''        - name: sidecar\<newline>'' @
     ''          image: busybox:1.36\<newline>'' @
     ''          command: ['sh', '-c', 'sleep infinity']\<newline>'' @
     ''      volumes:\<newline>'' @
     volumes cm_names @ ''\<newline>''"

text \<open>The document appended by one pass of the Service loop.\<close>

definition service_doc :: "int \<Rightarrow> int \<Rightarrow> string" where
  "service_doc release_idx i =
     ''apiVersion: v1\<newline>'' @
     ''kind: Service\<newline>'' @
     ''metadata:\<newline>'' @
     ''  name: '' @ prefix release_idx @ ''-app-'' @ fmt_0d 3 i @ ''\<newline>'' @
     ''  namespace: default\<newline>'' @
     ''spec:\<newline>'' @
     ''  type: ClusterIP\<newline>'' @
     ''  ports:\<newline>'' @
     ''    - port: 8080\<newline>'' @
     ''      targetPort: 8080\<newline>'' @
     ''  selector:\<newline>'' @
     ''    app: '' @ prefix release_idx @ ''-app-'' @ fmt_0d 3 i @ ''\<newline>''"

text \<open>The Ingress: one path per index of the release.\<close>

definition path_entry :: "int \<Rightarrow> int \<Rightarrow> string" where
  "path_entry release_idx i =
     ''          - path: /svc-'' @ fmt_0d 3 i @ ''\<newline>'' @
     ''            pathType: Prefix\<newline>'' @
     ''            backend:\<newline>'' @
     ''              service:\<newline>'' @
     ''                name: '' @ prefix release_idx @ ''-app-'' @ fmt_0d 3 i @ ''\<newline>'' @
     ''                port:\<newline>'' @
     ''                  number: 8080''"

definition path_entries :: "int \<Rightarrow> int \<Rightarrow> string list" where
  "path_entries release_idx n = [path_entry release_idx i. i \<leftarrow> range_py n]"

definition paths :: "int \<Rightarrow> int \<Rightarrow> string" where
  "paths release_idx n = join ''\<newline>'' (path_entries release_idx n)"

definition ingress_doc :: "int \<Rightarrow> int \<Rightarrow> string" where
  "ingress_doc release_idx n =
     ''apiVersion: networking.k8s.io/v1\<newline>'' @
     ''kind: Ingress\<newline>'' @
     ''metadata:\<newline>'' @
     ''  name: '' @ prefix release_idx @ ''-ingress\<newline>'' @
     ''  namespace: default\<newline>'' @
     ''  annotations:\<newline>'' @
     ''    kubernetes.io/ingress.class: haproxy\<newline>'' @
     ''spec:\<newline>'' @
     ''  rules:\<newline>'' @
     ''    - host: '' @ prefix release_idx @ ''.example.com\<newline>'' @
     ''      http:\<newline>'' @
     ''        paths:\<newline>'' @
     paths release_idx n @ ''\<newline>''"

text \<open>
  \<open>docs\<close> starts empty; each loop appends one document per index of \<open>range(n)\<close>, in the
  order ConfigMaps, Secrets, Deployments, Services; the Ingress is appended last.
\<close>

definition append_each :: "('a \<Rightarrow> string) \<Rightarrow> 'a list \<Rightarrow> string list \<Rightarrow> string list" where
  "append_each f xs docs = foldl (\<lambda>ds x. ds @ [f x]) docs xs"

definition docs_of :: "int \<Rightarrow> int \<Rightarrow> string list \<Rightarrow> string list \<Rightarrow> string list" where
  "docs_of release_idx n cm_names fqdns =
     (let docs = [];
          docs = append_each (configmap_doc release_idx) (range_py n) docs;
          docs = append_each (secret_doc release_idx) (range_py n) docs;
          docs = append_each (deployment_doc release_idx n cm_names fqdns) (range_py n) docs;
          docs = append_each (service_doc release_idx) (range_py n) docs;
          docs = docs @ [ingress_doc release_idx n]
      in docs)"

definition generate_release :: "int \<Rightarrow> int \<Rightarrow> string list \<Rightarrow> string list \<Rightarrow> string" where
  "generate_release release_idx n cm_names fqdns =
     join ''---\<newline>'' (docs_of release_idx n cm_names fqdns)"

section \<open>The same function on mutable lists\<close>

text \<open>
  Python lists are mutable objects that are passed by reference: \<open>cm_names\<close> and \<open>fqdns\<close>
  are the same two objects in every call, and \<open>docs\<close> is a new object that the loops
  append to. The heap holds the list objects; a reference is a position in it.
  \<open>generate_release_st\<close> is \<open>generate_release\<close> written with the references: it reads
  \<open>cm_names\<close> and \<open>fqdns\<close> from the current heap at every pass of the Deployment loop and
  writes only through \<open>docs\<close>.
\<close>

type_synonym heap = "string list list"

type_synonym ref = nat

text \<open>\<^verbatim>\<open>xs = [...]\<close>: a new list object.\<close>

definition new_list :: "string list \<Rightarrow> heap \<Rightarrow> ref \<times> heap" where
  "new_list xs h = (length h, h @ [xs])"

text \<open>\<^verbatim>\<open>xs.append(s)\<close>.\<close>

definition list_append :: "ref \<Rightarrow> string \<Rightarrow> heap \<Rightarrow> heap" where
  "list_append a s h = h[a := h ! a @ [s]]"

definition generate_release_st :: "int \<Rightarrow> int \<Rightarrow> ref \<Rightarrow> ref \<Rightarrow> heap \<Rightarrow> string \<times> heap" where
  "generate_release_st release_idx n cm_names fqdns h =
     (let (docs, h) = new_list [] h;
          h = foldl (\<lambda>h i. list_append docs (configmap_doc release_idx i) h) h (range_py n);
          h = foldl (\<lambda>h i. list_append docs (secret_doc release_idx i) h) h (range_py n);
          h = foldl (\<lambda>h i. list_append docs
                 (deployment_doc release_idx n (h ! cm_names) (h ! fqdns) i) h) h (range_py n);
          h = foldl (\<lambda>h i. list_append docs (service_doc release_idx i) h) h (range_py n);
          h = list_append docs (ingress_doc release_idx n) h
      in (join ''---\<newline>'' (h ! docs), h))"

section \<open>Orchestration\<close>

text \<open>
  What \<open>main\<close> does to the outside world, in order. \<open>Print_stdout s\<close> and \<open>Print_stderr s\<close>
  are \<^verbatim>\<open>print(s)\<close> and \<^verbatim>\<open>print(s, file=sys.stderr)\<close>; \<open>Makedirs p\<close> is
  \<^verbatim>\<open>os.makedirs(p, exist_ok=True)\<close>; \<open>Write_file p s\<close> opens \<open>p\<close> for writing and writes \<open>s\<close>.
  Failures of the operating system (a directory that cannot be created, a full disk) are
  not part of the model.
\<close>

datatype event =
    Print_stdout string
  | Print_stderr string
  | Makedirs string
  | Write_file string string

record outcome =
  exit_status :: int
  events :: "event list"

text \<open>\<^verbatim>\<open>os.path.join(a, b)\<close> on a POSIX system.\<close>

definition os_path_join :: "string \<Rightarrow> string \<Rightarrow> string" where
  "os_path_join a b =
     (if b \<noteq> [] \<and> hd b = CHR ''/'' then b
      else if a = [] \<or> last a = CHR ''/'' then a @ b
      else a @ ''/'' @ b)"

text \<open>The superscript four of the two cost lines, as its UTF-8 bytes.\<close>

definition superscript_four :: string where
  "superscript_four = [CHR 0xE2, CHR 0x81, CHR 0xB4]"

text \<open>
  The loop over the releases: each pass creates the release directory, assembles the
  release from the two shared lists and writes it.
\<close>

definition write_release :: "int \<Rightarrow> string \<Rightarrow> ref \<Rightarrow> ref \<Rightarrow> event list \<times> heap \<Rightarrow> int \<Rightarrow> event list \<times> heap" where
  "write_release n output cm_names fqdns st release_idx =
     (let (ev, h) = st;
          release_dir = os_path_join output (''release-'' @ fmt_0d 3 release_idx);
          ev = ev @ [Makedirs release_dir];
          (content, h) = generate_release_st release_idx n cm_names fqdns h;
          manifest_path = os_path_join release_dir ''manifests.yaml'';
          ev = ev @ [Write_file manifest_path content]
      in (ev, h))"

definition write_releases :: "int \<Rightarrow> string \<Rightarrow> ref \<Rightarrow> ref \<Rightarrow> event list \<times> heap \<Rightarrow> event list \<times> heap" where
  "write_releases n output cm_names fqdns st =
     foldl (write_release n output cm_names fqdns) st (range_py n)"

text \<open>
  \<open>main\<close>, from the parsed arguments on: \<open>n\<close> is \<^verbatim>\<open>args.n\<close> and \<open>output_arg\<close> is
  \<^verbatim>\<open>args.output\<close>, \<open>None\<close> when the option is absent. \<^verbatim>\<open>sys.exit(1)\<close> ends the run with
  status 1; a run that reaches the end has status 0.
\<close>

definition main :: "int \<Rightarrow> string option \<Rightarrow> outcome" where
  "main n output_arg =
     (if n < 1 then \<lparr>exit_status = 1, events = [Print_stderr ''Error: n must be >= 1'']\<rparr>
      else
        let output = (case output_arg of
                        None \<Rightarrow> ''/tmp/h2c-torture-'' @ str_int n @ ''/manifests''
                      | Some s \<Rightarrow> if s = [] then ''/tmp/h2c-torture-'' @ str_int n @ ''/manifests'' else s);
            ev = [Makedirs output];
            total_deploy = n * n;
            total_cm = n * n;
            total_mounts = total_deploy * total_cm;
            total_env_rewrites = total_deploy * total_deploy;
            ev = ev @ [Print_stdout (''Generating torture test: n='' @ str_int n)];
            ev = ev @ [Print_stdout (''  '' @ str_int total_deploy @ '' deployments, '' @ str_int total_cm
                         @ '' configmaps, '' @ str_int total_deploy @ '' services'')];
            ev = ev @ [Print_stdout (''  '' @ str_int total_mounts @ '' configmap mount resolutions (n''
                         @ superscript_four @ '')'')];
            ev = ev @ [Print_stdout (''  '' @ str_int total_env_rewrites @ '' env FQDN rewrites (n''
                         @ superscript_four @ '')'')];
            ev = ev @ [Print_stdout (''  Output: '' @ output)];
            (cm_names, h) = new_list (all_configmap_names n) [];
            (fqdns, h) = new_list (all_service_fqdns n) h;
            (ev, h) = write_releases n output cm_names fqdns (ev, h);
            ev = ev @ [Print_stdout (''Done. '' @ str_int n @ '' release directories written to '' @ output)]
        in \<lparr>exit_status = 0, events = ev\<rparr>)"

text \<open>The observations the claims about \<open>main\<close> are stated on.\<close>

fun touches_filesystem :: "event \<Rightarrow> bool" where
  "touches_filesystem (Makedirs p) = True"
| "touches_filesystem (Write_file p s) = True"
| "touches_filesystem (Print_stdout s) = False"
| "touches_filesystem (Print_stderr s) = False"

fun written :: "event list \<Rightarrow> (string \<times> string) list" where
  "written [] = []"
| "written (Write_file p s # es) = (p, s) # written es"
| "written (e # es) = written es"

fun stderr_lines :: "event list \<Rightarrow> string list" where
  "stderr_lines [] = []"
| "stderr_lines (Print_stderr s # es) = s # stderr_lines es"
| "stderr_lines (e # es) = stderr_lines es"

section \<open>Reading a manifest back\<close>

text \<open>
  The claims speak of the documents of a release and of the entries of a Deployment. These
  functions read them off the generated text, the way a consumer of the manifest would:
  the text is cut into lines, the lines into documents at the \<^verbatim>\<open>---\<close> lines, a document
  into the block below a key by indentation, and a block into list items by the key of
  each of its lines. None of them is part of generate.py.
\<close>

fun split_at :: "'a \<Rightarrow> 'a list \<Rightarrow> 'a list list" where
  "split_at s [] = [[]]"
| "split_at s (x # xs) =
     (if x = s then [] # split_at s xs
      else (case split_at s xs of [] \<Rightarrow> [[x]] | l # ls \<Rightarrow> (x # l) # ls))"

text \<open>The lines of a text; a newline at the very end does not open one more line.\<close>

definition text_lines :: "string \<Rightarrow> string list" where
  "text_lines s = (let ls = split_at CHR ''\<newline>'' s in if last ls = [] then butlast ls else ls)"

definition documents :: "string \<Rightarrow> string list list" where
  "documents text = split_at ''---'' (text_lines text)"

definition strip_prefix :: "string \<Rightarrow> string \<Rightarrow> string option" where
  "strip_prefix p l = (if take (length p) l = p then Some (drop (length p) l) else None)"

text \<open>The values of the top-level key \<^verbatim>\<open>kind\<close> of a document.\<close>

definition kinds_of :: "string list \<Rightarrow> string list" where
  "kinds_of doc = List.map_filter (strip_prefix ''kind: '') doc"

definition indent :: "string \<Rightarrow> nat" where
  "indent l = length (takeWhile (\<lambda>c. c = CHR '' '') l)"

text \<open>The block below the first line that is \<open>header\<close>: the lines that follow it and are indented deeper.\<close>

definition section_lines :: "string \<Rightarrow> string list \<Rightarrow> string list" where
  "section_lines header doc =
     takeWhile (\<lambda>l. indent header < indent l) (drop 1 (dropWhile (\<lambda>l. l \<noteq> header) doc))"

text \<open>
  A list item is a run of lines, one for each entry of a template; the line has to start
  with the entry, and what follows it is the field. \<open>match_item\<close> reads one item and
  returns its fields and the remaining lines; \<open>parse_items\<close> reads items until no line is
  left and fails on any line that does not fit. The fuel is the number of lines, which
  bounds the number of items.
\<close>

fun match_item :: "string list \<Rightarrow> string list \<Rightarrow> (string list \<times> string list) option" where
  "match_item [] ls = Some ([], ls)"
| "match_item (p # ps) [] = None"
| "match_item (p # ps) (l # ls) =
     (case strip_prefix p l of
        None \<Rightarrow> None
      | Some v \<Rightarrow> (case match_item ps ls of
                    None \<Rightarrow> None
                  | Some (vs, rest) \<Rightarrow> Some (v # vs, rest)))"

fun parse_fuel :: "nat \<Rightarrow> string list \<Rightarrow> string list \<Rightarrow> string list list option" where
  "parse_fuel k t [] = Some []"
| "parse_fuel 0 t (l # ls) = None"
| "parse_fuel (Suc k) t (l # ls) =
     (case match_item t (l # ls) of
        None \<Rightarrow> None
      | Some (vs, rest) \<Rightarrow> (case parse_fuel k t rest of
                             None \<Rightarrow> None
                           | Some items \<Rightarrow> Some (vs # items)))"

definition parse_items :: "string list \<Rightarrow> string list \<Rightarrow> string list list option" where
  "parse_items t ls = parse_fuel (length ls) t ls"

text \<open>The five kinds of list in a release: the template of an item, and the key the list stands below.\<close>

definition env_template :: "string list" where
  "env_template = [''            - name: '', ''              value: '']"

definition env_from_template :: "string list" where
  "env_from_template = [''            - secretRef:'', ''                name: '']"

definition volume_mount_template :: "string list" where
  "volume_mount_template =
     [''            - name: '', ''              mountPath: '', ''              readOnly: '']"

definition volume_template :: "string list" where
  "volume_template = [''        - name: '', ''          configMap:'', ''            name: '']"

definition path_template :: "string list" where
  "path_template =
     [''          - path: '', ''            pathType: '', ''            backend:'',
      ''              service:'', ''                name: '', ''                port:'',
      ''                  number: '']"

definition env_of :: "string list \<Rightarrow> string list list option" where
  "env_of doc = parse_items env_template (section_lines ''          env:'' doc)"

definition env_from_of :: "string list \<Rightarrow> string list list option" where
  "env_from_of doc = parse_items env_from_template (section_lines ''          envFrom:'' doc)"

definition volume_mounts_of :: "string list \<Rightarrow> string list list option" where
  "volume_mounts_of doc =
     parse_items volume_mount_template (section_lines ''          volumeMounts:'' doc)"

definition volumes_of :: "string list \<Rightarrow> string list list option" where
  "volumes_of doc = parse_items volume_template (section_lines ''      volumes:'' doc)"

definition paths_of :: "string list \<Rightarrow> string list list option" where
  "paths_of doc = parse_items path_template (section_lines ''        paths:'' doc)"

text \<open>Looking an item up by its first field.\<close>

definition field_of :: "string list list option \<Rightarrow> string \<Rightarrow> nat \<Rightarrow> string option" where
  "field_of items name k =
     (case items of
        None \<Rightarrow> None
      | Some its \<Rightarrow> (case List.find (\<lambda>it. it \<noteq> [] \<and> hd it = name) its of
                       None \<Rightarrow> None
                     | Some it \<Rightarrow> if k < length it then Some (it ! k) else None))"

text \<open>A text written line by line, used to state what the lines of a document are.\<close>

definition unlines :: "string list \<Rightarrow> string" where
  "unlines ls = concat (map (\<lambda>l. l @ ''\<newline>'') ls)"

section \<open>The documents, line by line\<close>

text \<open>
  What the lines of each document are, written out once so that theorems can refer to
  them. \<open>block\<close> gives the lines of a joined list of items as it stands in a document:
  one line per template entry and item, or a single empty line when there is no item (the
  join of nothing is the empty string, and the document still ends the line). Each
  document is shown below to be these lines, each ended by a newline.
\<close>

definition block :: "string list \<Rightarrow> ('a \<Rightarrow> string list) \<Rightarrow> 'a list \<Rightarrow> string list" where
  "block t fs xs = (if xs = [] then [[]] else concat (map (\<lambda>x. map2 (@) t (fs x)) xs))"

text \<open>The fields each item is expected to read as.\<close>

definition env_fields :: "int \<times> string \<Rightarrow> string list" where
  \<open>env_fields = (\<lambda>(idx, fqdn). [''SVC_'' @ fmt_0d 4 idx, ''"http://'' @ fqdn @ '':8080/api"''])\<close>

definition env_from_fields :: "int \<Rightarrow> int \<Rightarrow> string list" where
  "env_from_fields release_idx j = [[], prefix release_idx @ ''-secret-'' @ fmt_0d 3 j]"

definition volume_mount_fields :: "int \<Rightarrow> string list" where
  "volume_mount_fields idx = [''cm-'' @ fmt_0d 4 idx, ''/etc/config/'' @ fmt_0d 4 idx, ''true'']"

definition volume_fields :: "int \<times> string \<Rightarrow> string list" where
  "volume_fields = (\<lambda>(idx, name). [''cm-'' @ fmt_0d 4 idx, [], name])"

definition path_fields :: "int \<Rightarrow> int \<Rightarrow> string list" where
  "path_fields release_idx i =
     [''/svc-'' @ fmt_0d 3 i, ''Prefix'', [], [], prefix release_idx @ ''-app-'' @ fmt_0d 3 i, [], ''8080'']"

definition configmap_lines :: "int \<Rightarrow> int \<Rightarrow> string list" where
  \<open>configmap_lines release_idx i =
     [''apiVersion: v1'',
      ''kind: ConfigMap'',
      ''metadata:'',
      ''  name: '' @ prefix release_idx @ ''-config-'' @ fmt_0d 3 i,
      ''  namespace: default'',
      ''data:'',
      ''  SETTING_A: "value-a-'' @ str_int release_idx @ ''-'' @ str_int i @ ''"'',
      ''  SETTING_B: "value-b-'' @ str_int release_idx @ ''-'' @ str_int i @ ''"'',
      ''  config.yaml: |'',
      ''    key: release-'' @ str_int release_idx @ ''-cm-'' @ str_int i]\<close>

definition secret_lines :: "int \<Rightarrow> int \<Rightarrow> string list" where
  "secret_lines release_idx i =
     [''apiVersion: v1'',
      ''kind: Secret'',
      ''metadata:'',
      ''  name: '' @ prefix release_idx @ ''-secret-'' @ fmt_0d 3 i,
      ''  namespace: default'',
      ''type: Opaque'',
      ''data:'',
      ''  password: cGFzc3dvcmQ='',
      ''  token: dG9rZW4xMjM='']"

definition deployment_head :: "int \<Rightarrow> int \<Rightarrow> string list" where
  "deployment_head release_idx i =
     [''apiVersion: apps/v1'',
      ''kind: Deployment'',
      ''metadata:'',
      ''  name: '' @ prefix release_idx @ ''-app-'' @ fmt_0d 3 i,
      ''  namespace: default'',
      ''  labels:'',
      ''    app: '' @ prefix release_idx @ ''-app-'' @ fmt_0d 3 i,
      ''spec:'',
      ''  replicas: 1'',
      ''  selector:'',
      ''    matchLabels:'',
      ''      app: '' @ prefix release_idx @ ''-app-'' @ fmt_0d 3 i,
      ''  template:'',
      ''    metadata:'',
      ''      labels:'',
      ''        app: '' @ prefix release_idx @ ''-app-'' @ fmt_0d 3 i,
      ''    spec:'',
      ''      initContainers:'',
      ''        - name: init'',
      ''          image: busybox:1.36'',
      ''          command: ['sh', '-c', 'echo init-'' @ prefix release_idx @ ''-'' @ str_int i
        @ [CHR 0x27] @ '']'',
      ''      containers:'',
      ''        - name: main'',
      ''          image: nginx:1.27-alpine'',
      ''          ports:'',
      ''            - containerPort: 8080'']"

definition sidecar_lines :: "string list" where
  "sidecar_lines =
     [''        - name: sidecar'',
      ''          image: busybox:1.36'',
      ''          command: ['sh', '-c', 'sleep infinity'' @ [CHR 0x27] @ '']'']"

definition deployment_lines :: "int \<Rightarrow> int \<Rightarrow> string list \<Rightarrow> string list \<Rightarrow> int \<Rightarrow> string list" where
  "deployment_lines release_idx n cm_names fqdns i =
     deployment_head release_idx i
     @ ''          env:'' # block env_template env_fields (enumerate_py fqdns)
     @ ''          envFrom:'' # block env_from_template (env_from_fields release_idx) (range_py n)
     @ ''          volumeMounts:''
       # block volume_mount_template volume_mount_fields (range_py (int (length cm_names)))
     @ sidecar_lines
     @ ''      volumes:'' # block volume_template volume_fields (enumerate_py cm_names)"

definition service_lines :: "int \<Rightarrow> int \<Rightarrow> string list" where
  "service_lines release_idx i =
     [''apiVersion: v1'',
      ''kind: Service'',
      ''metadata:'',
      ''  name: '' @ prefix release_idx @ ''-app-'' @ fmt_0d 3 i,
      ''  namespace: default'',
      ''spec:'',
      ''  type: ClusterIP'',
      ''  ports:'',
      ''    - port: 8080'',
      ''      targetPort: 8080'',
      ''  selector:'',
      ''    app: '' @ prefix release_idx @ ''-app-'' @ fmt_0d 3 i]"

definition ingress_head :: "int \<Rightarrow> string list" where
  "ingress_head release_idx =
     [''apiVersion: networking.k8s.io/v1'',
      ''kind: Ingress'',
      ''metadata:'',
      ''  name: '' @ prefix release_idx @ ''-ingress'',
      ''  namespace: default'',
      ''  annotations:'',
      ''    kubernetes.io/ingress.class: haproxy'',
      ''spec:'',
      ''  rules:'',
      ''    - host: '' @ prefix release_idx @ ''.example.com'',
      ''      http:'']"

definition ingress_lines :: "int \<Rightarrow> int \<Rightarrow> string list" where
  "ingress_lines release_idx n =
     ingress_head release_idx
     @ ''        paths:'' # block path_template (path_fields release_idx) (range_py n)"

definition release_lines :: "int \<Rightarrow> int \<Rightarrow> string list \<Rightarrow> string list \<Rightarrow> string list list" where
  "release_lines release_idx n cm_names fqdns =
     map (configmap_lines release_idx) (range_py n)
     @ map (secret_lines release_idx) (range_py n)
     @ map (deployment_lines release_idx n cm_names fqdns) (range_py n)
     @ map (service_lines release_idx) (range_py n)
     @ [ingress_lines release_idx n]"

section \<open>Reading decimal numerals back\<close>

text \<open>
  Used only to state and prove properties of the formatting functions: which characters
  are digits, and the number a digit string denotes.
\<close>

definition is_digit :: "char \<Rightarrow> bool" where
  "is_digit c = (c \<in> set ''0123456789'')"

definition digit_val :: "char \<Rightarrow> nat" where
  "digit_val c = of_char c - 48"

definition digits_val :: "string \<Rightarrow> nat" where
  "digits_val s = foldl (\<lambda>a c. 10 * a + digit_val c) 0 s"

section \<open>Properties of the primitives\<close>

lemma length_range_py: "length (range_py n) = nat n"
  by (simp add: range_py_def)

lemma nth_range_py: "k < nat n \<Longrightarrow> range_py n ! k = int k"
  by (simp add: range_py_def)

lemma range_py_nonpos: "n \<le> 0 \<Longrightarrow> range_py n = []"
  by (simp add: range_py_def)

lemma length_concat_uniform:
  "(\<And>ys. ys \<in> set xss \<Longrightarrow> length ys = m) \<Longrightarrow> length (concat xss) = length xss * m"
  by (induction xss) auto

lemma nth_concat_uniform:
  "(\<And>ys. ys \<in> set xss \<Longrightarrow> length ys = m) \<Longrightarrow> i < length xss \<Longrightarrow> j < m \<Longrightarrow>
   concat xss ! (i * m + j) = xss ! i ! j"
proof (induction xss arbitrary: i)
  case Nil
  then show ?case by simp
next
  case (Cons ys xss)
  have len: "length ys = m" using Cons.prems(1) by simp
  show ?case
  proof (cases i)
    case 0
    then show ?thesis using Cons.prems len by (simp add: nth_append)
  next
    case (Suc k)
    have "concat xss ! (k * m + j) = xss ! k ! j"
      using Cons.IH [of k] Cons.prems Suc by simp
    moreover have "(ys @ concat xss) ! (Suc k * m + j) = concat xss ! (k * m + j)"
      using len by (simp add: nth_append)
    ultimately show ?thesis using Suc by simp
  qed
qed


lemma lt_10_cases:
  "d < 10 \<Longrightarrow> d = 0 \<or> d = 1 \<or> d = 2 \<or> d = 3 \<or> d = 4 \<or> d = 5 \<or> d = 6 \<or> d = 7 \<or> d = 8 \<or> d = (9::nat)"
  by arith

lemma is_digit_digit_char: "d < 10 \<Longrightarrow> is_digit (digit_char d)"
  using lt_10_cases [of d] by (auto simp: is_digit_def digit_char_def)

lemma digit_val_digit_char: "d < 10 \<Longrightarrow> digit_val (digit_char d) = d"
  using lt_10_cases [of d] by (auto simp: digit_val_def digit_char_def)

lemma str_nat_all_digits: "c \<in> set (str_nat n) \<Longrightarrow> is_digit c"
proof (induction n arbitrary: c rule: str_nat.induct)
  case (1 n)
  show ?case
  proof (cases "n < 10")
    case True
    with "1.prems" show ?thesis
      by (simp add: str_nat.simps [of n] is_digit_digit_char)
  next
    case False
    with "1.prems" have "c \<in> set (str_nat (n div 10)) \<or> c = digit_char (n mod 10)"
      by (auto simp: str_nat.simps [of n])
    then show ?thesis
      using "1.IH" [OF False] by (auto simp: is_digit_digit_char)
  qed
qed

lemma digits_val_snoc: "digits_val (s @ [c]) = 10 * digits_val s + digit_val c"
  by (simp add: digits_val_def)

lemma digits_val_str_nat: "digits_val (str_nat n) = n"
proof (induction n rule: str_nat.induct)
  case (1 n)
  show ?case
  proof (cases "n < 10")
    case True
    then show ?thesis
      by (simp add: str_nat.simps [of n] digits_val_def digit_val_digit_char)
  next
    case False
    then show ?thesis
      using "1.IH" by (simp add: str_nat.simps [of n] digits_val_snoc digit_val_digit_char)
  qed
qed

lemma digits_val_zeros: "digits_val (replicate k CHR ''0'' @ s) = digits_val s"
proof -
  have "foldl (\<lambda>a c. 10 * a + digit_val c) 0 (replicate k CHR ''0'') = 0"
    by (induction k) (simp_all add: digit_val_def)
  then show ?thesis by (simp add: digits_val_def)
qed

lemma digits_val_fmt_0d: "0 \<le> x \<Longrightarrow> digits_val (fmt_0d w x) = nat x"
  by (simp add: fmt_0d_def digits_val_zeros digits_val_str_nat)

lemma fmt_0d_all_digits: "0 \<le> x \<Longrightarrow> c \<in> set (fmt_0d w x) \<Longrightarrow> is_digit c"
  by (auto simp: fmt_0d_def is_digit_def dest: str_nat_all_digits)

lemma fmt_0d_inj: "0 \<le> x \<Longrightarrow> 0 \<le> y \<Longrightarrow> fmt_0d w x = fmt_0d w y \<Longrightarrow> x = y"
  using digits_val_fmt_0d [of x w] digits_val_fmt_0d [of y w] by simp

lemma digits_then_sep_eq:
  assumes "\<And>c. c \<in> set a \<Longrightarrow> is_digit c" "\<And>c. c \<in> set a' \<Longrightarrow> is_digit c"
    and "\<not> is_digit s" and "a @ s # b = a' @ s # b'"
  shows "a = a' \<and> b = b'"
proof -
  have "takeWhile is_digit (a @ s # b) = a" "takeWhile is_digit (a' @ s # b') = a'"
    using assms(1-3) by (simp_all add: takeWhile_tail)
  then have "a = a'" using assms(4) by simp
  then show ?thesis using assms(4) by simp
qed

lemma not_digit_dash: "\<not> is_digit CHR ''-''"
  by (simp add: is_digit_def)

lemma configmap_name_inj:
  assumes "0 \<le> r" "0 \<le> r'" "0 \<le> i" "0 \<le> i'"
    and "''r'' @ fmt_0d 3 r @ ''-config-'' @ fmt_0d 3 i = ''r'' @ fmt_0d 3 r' @ ''-config-'' @ fmt_0d 3 i'"
  shows "r = r' \<and> i = i'"
proof -
  have "fmt_0d 3 r @ CHR ''-'' # (''config-'' @ fmt_0d 3 i) = fmt_0d 3 r' @ CHR ''-'' # (''config-'' @ fmt_0d 3 i')"
    using assms(5) by simp
  then have "fmt_0d 3 r = fmt_0d 3 r' \<and> ''config-'' @ fmt_0d 3 i = ''config-'' @ fmt_0d 3 i'"
    using assms(1,2) by (intro digits_then_sep_eq) (auto simp: fmt_0d_all_digits not_digit_dash)
  then show ?thesis using assms(1-4) by (auto dest: fmt_0d_inj)
qed

lemma service_fqdn_inj:
  assumes "0 \<le> r" "0 \<le> r'" "0 \<le> i" "0 \<le> i'"
    and "''r'' @ fmt_0d 3 r @ ''-app-'' @ fmt_0d 3 i @ ''.default.svc.cluster.local''
       = ''r'' @ fmt_0d 3 r' @ ''-app-'' @ fmt_0d 3 i' @ ''.default.svc.cluster.local''"
  shows "r = r' \<and> i = i'"
proof -
  have "fmt_0d 3 r @ CHR ''-'' # (''app-'' @ fmt_0d 3 i @ ''.default.svc.cluster.local'')
      = fmt_0d 3 r' @ CHR ''-'' # (''app-'' @ fmt_0d 3 i' @ ''.default.svc.cluster.local'')"
    using assms(5) by simp
  then have "fmt_0d 3 r = fmt_0d 3 r' \<and>
      ''app-'' @ fmt_0d 3 i @ ''.default.svc.cluster.local'' = ''app-'' @ fmt_0d 3 i' @ ''.default.svc.cluster.local''"
    using assms(1,2) by (intro digits_then_sep_eq) (auto simp: fmt_0d_all_digits not_digit_dash)
  then show ?thesis using assms(1-4) by (auto dest: fmt_0d_inj)
qed

lemma length_pairs:
  "length (concat (map (\<lambda>r. map (f r) (range_py n)) (range_py n))) = nat n * nat n"
  by (subst length_concat_uniform [where m = "nat n"]) (auto simp: length_range_py)

lemma nth_pairs:
  assumes "0 \<le> r" "r < n" "0 \<le> i" "i < n"
  shows "concat (map (\<lambda>r. map (f r) (range_py n)) (range_py n)) ! nat (r * n + i) = f r i"
proof -
  let ?xss = "map (\<lambda>r. map (f r) (range_py n)) (range_py n)"
  have idx: "nat (r * n + i) = nat r * nat n + nat i"
    using assms by (simp add: nat_add_distrib nat_mult_distrib)
  have "concat ?xss ! (nat r * nat n + nat i) = ?xss ! nat r ! nat i"
    using assms by (intro nth_concat_uniform) (auto simp: length_range_py)
  also have "\<dots> = f r i"
    using assms by (simp add: length_range_py nth_range_py)
  finally show ?thesis by (simp add: idx)
qed

lemma distinct_pairs:
  assumes inj: "\<And>r i r' i'. 0 \<le> r \<Longrightarrow> 0 \<le> i \<Longrightarrow> 0 \<le> r' \<Longrightarrow> 0 \<le> i' \<Longrightarrow> f r i = f r' i' \<Longrightarrow> r = r' \<and> i = i'"
  shows "distinct (concat (map (\<lambda>r. map (f r) (range_py n)) (range_py n)))"
proof -
  let ?g = "concat (map (\<lambda>r. map (f r) (range_py n)) (range_py n))"
  have at: "?g ! k = f (int (k div nat n)) (int (k mod nat n))" if "k < nat n * nat n" for k
  proof -
    define m where "m = nat n"
    have km: "k < m * m" using that by (simp add: m_def)
    have pos: "0 < m" using km by (cases m) auto
    have n: "n = int m" using pos by (simp add: m_def)
    have d: "k div m < m" using km pos by (simp add: less_mult_imp_div_less)
    have mo: "k mod m < m" using pos by simp
    have "int (k div m) * int m + int (k mod m) = int (k div m * m + k mod m)"
      by (simp only: of_nat_mult of_nat_add)
    also have "\<dots> = int k" by (simp only: div_mult_mod_eq)
    finally have idx: "int (k div m) * n + int (k mod m) = int k"
      by (simp only: n)
    have "?g ! nat (int (k div m) * n + int (k mod m)) = f (int (k div m)) (int (k mod m))"
    proof (rule nth_pairs)
      show "0 \<le> int (k div m)" "0 \<le> int (k mod m)" by simp_all
      show "int (k div m) < n" using d by (simp only: n of_nat_less_iff)
      show "int (k mod m) < n" using mo by (simp only: n of_nat_less_iff)
    qed
    then have "?g ! k = f (int (k div m)) (int (k mod m))" by (simp only: idx nat_int)
    then show ?thesis by (simp only: m_def)
  qed
  show ?thesis
    unfolding distinct_conv_nth length_pairs
  proof (intro allI impI)
    fix k l
    assume k: "k < nat n * nat n" and l: "l < nat n * nat n" and neq: "k \<noteq> l"
    show "?g ! k \<noteq> ?g ! l"
    proof
      assume "?g ! k = ?g ! l"
      then have "f (int (k div nat n)) (int (k mod nat n)) = f (int (l div nat n)) (int (l mod nat n))"
        using at [OF k] at [OF l] by simp
      then have "int (k div nat n) = int (l div nat n) \<and> int (k mod nat n) = int (l mod nat n)"
        by (intro inj) auto
      then have "k div nat n = l div nat n" "k mod nat n = l mod nat n" by auto
      then have "k div nat n * nat n + k mod nat n = l div nat n * nat n + l mod nat n" by simp
      then have "k = l" by simp
      with neq show False by simp
    qed
  qed
qed

subsection \<open>The heap version computes the same text\<close>

lemma append_each_eq: "append_each f xs docs = docs @ map f xs"
  unfolding append_each_def by (induction xs arbitrary: docs) simp_all

lemma docs_of_eq:
  "docs_of r n cm_names fqdns =
     map (configmap_doc r) (range_py n) @ map (secret_doc r) (range_py n)
     @ map (deployment_doc r n cm_names fqdns) (range_py n) @ map (service_doc r) (range_py n)
     @ [ingress_doc r n]"
  by (simp add: docs_of_def append_each_eq)

lemma list_append_nth_other: "a \<noteq> d \<Longrightarrow> list_append d s h ! a = h ! a"
  by (simp add: list_append_def)

lemma list_append_length: "length (list_append d s h) = length h"
  by (simp add: list_append_def)

lemma foldl_list_append:
  assumes "d < length h"
  shows "foldl (\<lambda>h i. list_append d (f i) h) h xs = h[d := h ! d @ map f xs]"
  using assms
proof (induction xs arbitrary: h)
  case Nil
  then show ?case by simp
next
  case (Cons x xs)
  have "d < length (list_append d (f x) h)" using Cons.prems by (simp add: list_append_length)
  then have "foldl (\<lambda>h i. list_append d (f i) h) (list_append d (f x) h) xs
      = (list_append d (f x) h)[d := list_append d (f x) h ! d @ map f xs]"
    by (rule Cons.IH)
  then show ?case using Cons.prems by (simp add: list_append_def)
qed

lemma foldl_list_append_reading:
  assumes "d < length h" "a \<noteq> d" "b \<noteq> d"
  shows "foldl (\<lambda>h i. list_append d (g (h ! a) (h ! b) i) h) h xs
       = h[d := h ! d @ map (g (h ! a) (h ! b)) xs]"
  using assms
proof (induction xs arbitrary: h)
  case Nil
  then show ?case by simp
next
  case (Cons x xs)
  let ?h = "list_append d (g (h ! a) (h ! b) x) h"
  have same: "?h ! a = h ! a" "?h ! b = h ! b"
    using Cons.prems by (simp_all add: list_append_nth_other)
  have "d < length ?h" using Cons.prems by (simp add: list_append_length)
  then have "foldl (\<lambda>h i. list_append d (g (h ! a) (h ! b) i) h) ?h xs
      = ?h[d := ?h ! d @ map (g (?h ! a) (?h ! b)) xs]"
    using Cons.prems(2,3) by (rule Cons.IH)
  then show ?case using Cons.prems by (simp add: same) (simp add: list_append_def)
qed

lemma generate_release_st_eq:
  assumes "cm_names < length h" "fqdns < length h"
  shows "generate_release_st r n cm_names fqdns h
       = (generate_release r n (h ! cm_names) (h ! fqdns),
          h @ [docs_of r n (h ! cm_names) (h ! fqdns)])"
proof -
  let ?d = "length h"
  let ?h0 = "h @ [[]]"
  have d: "?d < length ?h0" by simp
  have ne: "cm_names \<noteq> ?d" "fqdns \<noteq> ?d" using assms by simp_all
  have rd: "?h0 ! cm_names = h ! cm_names" "?h0 ! fqdns = h ! fqdns"
    using assms by (simp_all add: nth_append)
  define h1 where "h1 = foldl (\<lambda>h i. list_append ?d (configmap_doc r i) h) ?h0 (range_py n)"
  define h2 where "h2 = foldl (\<lambda>h i. list_append ?d (secret_doc r i) h) h1 (range_py n)"
  define h3 where "h3 = foldl (\<lambda>h i. list_append ?d
      (deployment_doc r n (h ! cm_names) (h ! fqdns) i) h) h2 (range_py n)"
  define h4 where "h4 = foldl (\<lambda>h i. list_append ?d (service_doc r i) h) h3 (range_py n)"
  define h5 where "h5 = list_append ?d (ingress_doc r n) h4"
  have e1: "h1 = h @ [map (configmap_doc r) (range_py n)]"
    unfolding h1_def by (subst foldl_list_append [OF d]) simp
  have e2: "h2 = h @ [map (configmap_doc r) (range_py n) @ map (secret_doc r) (range_py n)]"
    unfolding h2_def e1 by (subst foldl_list_append) simp_all
  have rd2: "h2 ! cm_names = h ! cm_names" "h2 ! fqdns = h ! fqdns"
    using assms by (simp_all add: e2 nth_append)
  have e3: "h3 = h @ [map (configmap_doc r) (range_py n) @ map (secret_doc r) (range_py n)
      @ map (deployment_doc r n (h ! cm_names) (h ! fqdns)) (range_py n)]"
    unfolding h3_def
    by (subst foldl_list_append_reading) (use ne in \<open>simp_all add: e2 rd2 [unfolded e2]\<close>)
  have e4: "h4 = h @ [map (configmap_doc r) (range_py n) @ map (secret_doc r) (range_py n)
      @ map (deployment_doc r n (h ! cm_names) (h ! fqdns)) (range_py n)
      @ map (service_doc r) (range_py n)]"
    unfolding h4_def e3 by (subst foldl_list_append) simp_all
  have e5: "h5 = h @ [docs_of r n (h ! cm_names) (h ! fqdns)]"
    unfolding h5_def e4 by (simp add: list_append_def docs_of_eq)
  have "generate_release_st r n cm_names fqdns h = (join ''---\<newline>'' (h5 ! ?d), h5)"
    unfolding generate_release_st_def new_list_def h5_def h4_def h3_def h2_def h1_def
    by (simp add: Let_def)
  then show ?thesis by (simp add: e5 generate_release_def)
qed

subsection \<open>The release loop and what main writes\<close>

lemma write_release_eq:
  assumes "cm_names < length h" "fqdns < length h"
  shows "write_release n output cm_names fqdns (ev, h) r
       = (ev @ [Makedirs (os_path_join output (''release-'' @ fmt_0d 3 r)),
                Write_file (os_path_join (os_path_join output (''release-'' @ fmt_0d 3 r)) ''manifests.yaml'')
                  (generate_release r n (h ! cm_names) (h ! fqdns))],
          h @ [docs_of r n (h ! cm_names) (h ! fqdns)])"
  by (simp add: write_release_def Let_def generate_release_st_eq [OF assms])

lemma foldl_write_release:
  assumes "cm_names < length h" "fqdns < length h"
  shows "foldl (write_release n output cm_names fqdns) (ev, h) rs
       = (ev @ concat (map (\<lambda>r.
              [Makedirs (os_path_join output (''release-'' @ fmt_0d 3 r)),
               Write_file (os_path_join (os_path_join output (''release-'' @ fmt_0d 3 r)) ''manifests.yaml'')
                 (generate_release r n (h ! cm_names) (h ! fqdns))]) rs),
          h @ map (\<lambda>r. docs_of r n (h ! cm_names) (h ! fqdns)) rs)"
  using assms
proof (induction rs arbitrary: ev h)
  case Nil
  then show ?case by simp
next
  case (Cons r rs)
  let ?h = "h @ [docs_of r n (h ! cm_names) (h ! fqdns)]"
  have lt: "cm_names < length ?h" "fqdns < length ?h" using Cons.prems by simp_all
  have rd: "?h ! cm_names = h ! cm_names" "?h ! fqdns = h ! fqdns"
    using Cons.prems by (simp_all add: nth_append)
  show ?case
    by (simp add: write_release_eq [OF Cons.prems] Cons.IH [OF lt] rd)
qed

lemma written_append: "written (es @ fs) = written es @ written fs"
  by (induction es rule: written.induct) simp_all

lemma written_release_events:
  "map snd (written (concat (map (\<lambda>r. [Makedirs (d r), Write_file (p r) (c r)]) rs))) = map c rs"
  by (induction rs) simp_all

lemma written_main:
  "map snd (written (events (main n output_arg)))
     = map (\<lambda>r. generate_release r n (all_configmap_names n) (all_service_fqdns n)) (range_py n)"
proof (cases "n < 1")
  case True
  then show ?thesis by (simp add: main_def range_py_nonpos)
next
  case False
  then show ?thesis
    by (simp add: main_def Let_def new_list_def write_releases_def foldl_write_release
        written_append written_release_events split: option.split)
qed

subsection \<open>Splitting and parsing\<close>

lemma split_at_notin: "s \<notin> set a \<Longrightarrow> split_at s a = [a]"
  by (induction a) auto

lemma split_at_append: "s \<notin> set a \<Longrightarrow> split_at s (a @ s # b) = a # split_at s b"
  by (induction a) auto

lemma unlines_Nil: "unlines [] = []"
  by (simp add: unlines_def)

lemma unlines_Cons: "unlines (l # ls) = l @ CHR ''\<newline>'' # unlines ls"
  by (simp add: unlines_def)

lemma unlines_append: "unlines (a @ b) = unlines a @ unlines b"
  by (simp add: unlines_def)

lemma unlines_concat: "unlines (concat lss) = concat (map unlines lss)"
  by (induction lss) (simp_all add: unlines_Nil unlines_append)

lemma split_at_unlines:
  "(\<And>l. l \<in> set ls \<Longrightarrow> CHR ''\<newline>'' \<notin> set l) \<Longrightarrow> split_at CHR ''\<newline>'' (unlines ls) = ls @ [[]]"
  by (induction ls) (simp_all add: unlines_Nil unlines_Cons split_at_append)

lemma text_lines_unlines:
  "(\<And>l. l \<in> set ls \<Longrightarrow> CHR ''\<newline>'' \<notin> set l) \<Longrightarrow> text_lines (unlines ls) = ls"
  by (simp add: text_lines_def split_at_unlines)

lemma join_Cons: "ds \<noteq> [] \<Longrightarrow> join sep (d # ds) = d @ sep @ join sep ds"
  by (cases ds) simp_all

lemma join_unlines:
  "ds \<noteq> [] \<Longrightarrow> join ''---\<newline>'' (map unlines ds) = unlines (join [''---''] ds)"
proof (induction ds)
  case Nil
  then show ?case by simp
next
  case (Cons d ds)
  show ?case
  proof (cases "ds = []")
    case True
    then show ?thesis by simp
  next
    case False
    then show ?thesis
      using Cons.IH by (simp add: join_Cons unlines_append unlines_Cons unlines_Nil)
  qed
qed

lemma set_join: "set (join sep ds) \<subseteq> set sep \<union> \<Union> (set ` set ds)"
  by (induction sep ds rule: join.induct) auto

lemma split_at_join:
  "ds \<noteq> [] \<Longrightarrow> (\<And>d. d \<in> set ds \<Longrightarrow> s \<notin> set d) \<Longrightarrow> split_at s (join [s] ds) = ds"
proof (induction ds)
  case Nil
  then show ?case by simp
next
  case (Cons d ds)
  show ?case
  proof (cases "ds = []")
    case True
    then show ?thesis using Cons.prems by (simp add: split_at_notin)
  next
    case False
    then show ?thesis
      using Cons.IH Cons.prems by (simp add: join_Cons split_at_append)
  qed
qed

lemma documents_join:
  assumes "ds \<noteq> []"
    and nl: "\<And>d l. d \<in> set ds \<Longrightarrow> l \<in> set d \<Longrightarrow> CHR ''\<newline>'' \<notin> set l"
    and sep: "\<And>d. d \<in> set ds \<Longrightarrow> ''---'' \<notin> set d"
  shows "documents (join ''---\<newline>'' (map unlines ds)) = ds"
proof -
  have "CHR ''\<newline>'' \<notin> set l" if "l \<in> set (join [''---''] ds)" for l
  proof -
    from that set_join [of "[''---'']" ds] have "l = ''---'' \<or> (\<exists>d \<in> set ds. l \<in> set d)"
      by auto
    then show ?thesis using nl by auto
  qed
  then have "text_lines (unlines (join [''---''] ds)) = join [''---''] ds"
    by (rule text_lines_unlines)
  then show ?thesis
    using assms(1) sep by (simp add: documents_def join_unlines split_at_join)
qed

lemma strip_prefix_append: "strip_prefix p (p @ v) = Some v"
  by (simp add: strip_prefix_def)

lemma match_item_fields:
  "length vs = length t \<Longrightarrow> match_item t (map2 (@) t vs @ rest) = Some (vs, rest)"
proof (induction t arbitrary: vs)
  case Nil
  then show ?case by simp
next
  case (Cons p ps)
  then obtain v vs' where vs: "vs = v # vs'" by (cases vs) auto
  with Cons show ?case by (simp add: strip_prefix_append)
qed

lemma parse_fuel_Suc:
  "ls \<noteq> [] \<Longrightarrow> parse_fuel (Suc k) t ls =
     (case match_item t ls of
        None \<Rightarrow> None
      | Some (vs, rest) \<Rightarrow> (case parse_fuel k t rest of
                             None \<Rightarrow> None
                           | Some items \<Rightarrow> Some (vs # items)))"
  by (cases ls) simp_all

lemma parse_fuel_items:
  assumes "t \<noteq> []" and "\<And>x. x \<in> set xs \<Longrightarrow> length (f x) = length t" and "length xs \<le> k"
  shows "parse_fuel k t (concat (map (\<lambda>x. map2 (@) t (f x)) xs)) = Some (map f xs)"
  using assms(2,3)
proof (induction xs arbitrary: k)
  case Nil
  then show ?case by simp
next
  case (Cons x xs)
  from Cons.prems(2) obtain k' where k: "k = Suc k'" "length xs \<le> k'" by (cases k) auto
  have len: "length (f x) = length t" using Cons.prems(1) by simp
  let ?rest = "concat (map (\<lambda>x. map2 (@) t (f x)) xs)"
  have m: "match_item t (map2 (@) t (f x) @ ?rest) = Some (f x, ?rest)"
    using len by (rule match_item_fields)
  have ne: "map2 (@) t (f x) @ ?rest \<noteq> []"
    using assms(1) len by (cases t; cases "f x") auto
  have ih: "parse_fuel k' t ?rest = Some (map f xs)"
    using Cons.prems(1) k(2) by (intro Cons.IH) auto
  have "parse_fuel (Suc k') t (map2 (@) t (f x) @ ?rest) = Some (f x # map f xs)"
    by (simp only: parse_fuel_Suc [OF ne] m ih option.case prod.case)
  then show ?case by (simp add: k(1))
qed

lemma length_le_concat:
  "(\<And>ys. ys \<in> set yss \<Longrightarrow> ys \<noteq> []) \<Longrightarrow> length yss \<le> length (concat yss)"
proof (induction yss)
  case Nil
  then show ?case by simp
next
  case (Cons ys yss)
  have "ys \<noteq> []" using Cons.prems by simp
  then have "1 \<le> length ys" by (cases ys) auto
  moreover have "length yss \<le> length (concat yss)" using Cons.prems by (intro Cons.IH) auto
  ultimately show ?case by simp
qed

lemma parse_items_items:
  assumes "t \<noteq> []" and "\<And>x. x \<in> set xs \<Longrightarrow> length (f x) = length t"
  shows "parse_items t (concat (map (\<lambda>x. map2 (@) t (f x)) xs)) = Some (map f xs)"
proof -
  have "map2 (@) t (f x) \<noteq> []" if "x \<in> set xs" for x
    using assms(1) assms(2) [OF that] by (cases t; cases "f x") auto
  then have "length (map (\<lambda>x. map2 (@) t (f x)) xs) \<le> length (concat (map (\<lambda>x. map2 (@) t (f x)) xs))"
    by (intro length_le_concat) auto
  then have "length xs \<le> length (concat (map (\<lambda>x. map2 (@) t (f x)) xs))" by simp
  then show ?thesis
    unfolding parse_items_def using assms by (intro parse_fuel_items) auto
qed

lemma section_lines_found:
  assumes "\<And>l. l \<in> set pre \<Longrightarrow> l \<noteq> header"
    and "\<And>l. l \<in> set body \<Longrightarrow> indent header < indent l"
    and "post = [] \<or> \<not> indent header < indent (hd post)"
  shows "section_lines header (pre @ header # body @ post) = body"
proof -
  have "dropWhile (\<lambda>l. l \<noteq> header) (pre @ header # body @ post) = header # body @ post"
    using assms(1) by simp
  moreover have "takeWhile (\<lambda>l. indent header < indent l) (body @ post) = body"
  proof (cases post)
    case Nil
    then show ?thesis using assms(2) by simp
  next
    case (Cons q qs)
    then show ?thesis using assms(2,3) by (simp add: takeWhile_tail)
  qed
  ultimately show ?thesis by (simp add: section_lines_def)
qed

subsection \<open>Each document is its lines\<close>

lemma join_nl_map:
  "join ''\<newline>'' (map e xs) @ CHR ''\<newline>'' # rest
     = (if xs = [] then CHR ''\<newline>'' # rest else concat (map (\<lambda>x. e x @ ''\<newline>'') xs) @ rest)"
proof (induction xs)
  case Nil
  then show ?case by simp
next
  case (Cons x xs)
  then show ?case by (cases "xs = []") (simp_all add: join_Cons)
qed

lemma unlines_block:
  "unlines (block t fs xs)
     = (if xs = [] then ''\<newline>'' else concat (map (\<lambda>x. unlines (map2 (@) t (fs x))) xs))"
  by (simp add: block_def unlines_concat unlines_Cons unlines_Nil comp_def)

lemma join_nl_block:
  assumes "\<And>x. e x @ ''\<newline>'' = unlines (map2 (@) t (fs x))"
  shows "join ''\<newline>'' (map e xs) @ CHR ''\<newline>'' # rest = unlines (block t fs xs) @ rest"
  by (simp add: join_nl_map unlines_block assms)

lemma env_vars_block:
  "env_vars fqdns @ CHR ''\<newline>'' # rest = unlines (block env_template env_fields (enumerate_py fqdns)) @ rest"
  unfolding env_vars_def env_var_entries_def
  by (rule join_nl_block)
     (simp add: env_var_entry_def env_template_def env_fields_def unlines_Cons unlines_Nil split: prod.split)

lemma env_from_block:
  "env_from r n @ CHR ''\<newline>'' # rest = unlines (block env_from_template (env_from_fields r) (range_py n)) @ rest"
  unfolding env_from_def env_from_entries_def
  by (rule join_nl_block)
     (simp add: env_from_entry_def env_from_template_def env_from_fields_def unlines_Cons unlines_Nil)

lemma volume_mounts_block:
  "volume_mounts cm_names @ CHR ''\<newline>'' # rest
     = unlines (block volume_mount_template volume_mount_fields (range_py (int (length cm_names)))) @ rest"
  unfolding volume_mounts_def volume_mount_entries_def
  by (rule join_nl_block)
     (simp add: volume_mount_entry_def volume_mount_template_def volume_mount_fields_def unlines_Cons unlines_Nil)

lemma volumes_block:
  "volumes cm_names @ CHR ''\<newline>'' # rest
     = unlines (block volume_template volume_fields (enumerate_py cm_names)) @ rest"
  unfolding volumes_def volume_entries_def
  by (rule join_nl_block)
     (simp add: volume_entry_def volume_template_def volume_fields_def unlines_Cons unlines_Nil split: prod.split)

lemma paths_block:
  "paths r n @ CHR ''\<newline>'' # rest = unlines (block path_template (path_fields r) (range_py n)) @ rest"
  unfolding paths_def path_entries_def
  by (rule join_nl_block)
     (simp add: path_entry_def path_template_def path_fields_def unlines_Cons unlines_Nil)

lemma configmap_doc_lines: "configmap_doc r i = unlines (configmap_lines r i)"
  by (simp add: configmap_doc_def configmap_lines_def unlines_Cons unlines_Nil)

lemma secret_doc_lines: "secret_doc r i = unlines (secret_lines r i)"
  by (simp add: secret_doc_def secret_lines_def unlines_Cons unlines_Nil)

lemma service_doc_lines: "service_doc r i = unlines (service_lines r i)"
  by (simp add: service_doc_def service_lines_def unlines_Cons unlines_Nil)

lemma ingress_doc_lines: "ingress_doc r n = unlines (ingress_lines r n)"
  using paths_block [of r n "[]"]
  by (simp add: ingress_doc_def ingress_lines_def ingress_head_def unlines_Cons unlines_Nil
      unlines_append)

lemma deployment_doc_lines:
  "deployment_doc r n cm_names fqdns i = unlines (deployment_lines r n cm_names fqdns i)"
  by (simp add: deployment_doc_def deployment_lines_def deployment_head_def sidecar_lines_def
      unlines_Cons unlines_Nil unlines_append
      env_vars_block env_from_block volume_mounts_block volumes_block)

subsection \<open>Blocks of items and the sections of a document\<close>

lemma fmt_0d_chars: "c \<in> set (fmt_0d w x) \<Longrightarrow> is_digit c \<or> c = CHR ''-''"
  by (auto simp: fmt_0d_def is_digit_def dest: str_nat_all_digits split: if_splits)

lemma str_int_chars: "c \<in> set (str_int x) \<Longrightarrow> is_digit c \<or> c = CHR ''-''"
  by (auto simp: str_int_def dest: str_nat_all_digits split: if_splits)

lemma newline_not_fmt_0d [simp]: "CHR ''\<newline>'' \<notin> set (fmt_0d w x)"
  using fmt_0d_chars [of "CHR ''\<newline>''" w x] by (auto simp: is_digit_def)

lemma newline_not_str_int [simp]: "CHR ''\<newline>'' \<notin> set (str_int x)"
  using str_int_chars [of "CHR ''\<newline>''" x] by (auto simp: is_digit_def)

lemma newline_not_prefix [simp]: "CHR ''\<newline>'' \<notin> set (prefix r)"
  by (simp add: prefix_def)

lemma in_block:
  assumes "l \<in> set (block t fs xs)"
  shows "l = [] \<or> (\<exists>x \<in> set xs. \<exists>(p, v) \<in> set (zip t (fs x)). l = p @ v)"
proof (cases "xs = []")
  case True
  with assms show ?thesis by (simp add: block_def)
next
  case False
  with assms obtain x where "x \<in> set xs" "l \<in> set (map2 (@) t (fs x))"
    by (auto simp: block_def)
  then show ?thesis by auto
qed

lemma block_no_newline:
  assumes "l \<in> set (block t fs xs)"
    and "\<And>p. p \<in> set t \<Longrightarrow> CHR ''\<newline>'' \<notin> set p"
    and "\<And>x v. x \<in> set xs \<Longrightarrow> v \<in> set (fs x) \<Longrightarrow> CHR ''\<newline>'' \<notin> set v"
  shows "CHR ''\<newline>'' \<notin> set l"
proof (cases "l = []")
  case True
  then show ?thesis by simp
next
  case False
  with in_block [OF assms(1)] obtain x p v where x: "x \<in> set xs" and pv: "(p, v) \<in> set (zip t (fs x))"
    and l: "l = p @ v" by auto
  have "p \<in> set t" "v \<in> set (fs x)" using pv by (auto dest: set_zip_leftD set_zip_rightD)
  then show ?thesis using assms(2) assms(3) [OF x] l by simp
qed

lemma block_starts_with_space:
  assumes "l \<in> set (block t fs xs)"
    and "\<And>p. p \<in> set t \<Longrightarrow> p \<noteq> [] \<and> hd p = CHR '' ''"
  shows "l = [] \<or> hd l = CHR '' ''"
  using in_block [OF assms(1)] assms(2) by (auto dest!: set_zip_leftD)

lemma block_notin:
  assumes "header \<noteq> []"
    and "\<And>p. p \<in> set t \<Longrightarrow> take (length p) header \<noteq> p"
  shows "header \<notin> set (block t fs xs)"
proof
  assume "header \<in> set (block t fs xs)"
  from in_block [OF this] assms(1) obtain p v where "p \<in> set t" "header = p @ v"
    by (auto dest!: set_zip_leftD)
  then have "take (length p) header = p" by simp
  with assms(2) \<open>p \<in> set t\<close> show False by blast
qed

lemma indent_append:
  assumes "indent p < length p"
  shows "indent (p @ v) = indent p"
proof -
  have "takeWhile (\<lambda>c. c = CHR '' '') p \<noteq> p"
  proof
    assume "takeWhile (\<lambda>c. c = CHR '' '') p = p"
    then have "length (takeWhile (\<lambda>c. c = CHR '' '') p) = length p"
      by (rule arg_cong)
    with assms show False by (simp add: indent_def)
  qed
  then have "\<not> (\<forall>c \<in> set p. c = CHR '' '')"
    unfolding takeWhile_eq_all_conv .
  then obtain c where "c \<in> set p" "\<not> c = CHR '' ''"
    by blast
  then have "takeWhile (\<lambda>c. c = CHR '' '') (p @ v) = takeWhile (\<lambda>c. c = CHR '' '') p"
    by (rule takeWhile_append1)
  then show ?thesis by (simp add: indent_def)
qed

lemma indent_Nil: "indent [] = 0"
  by (simp add: indent_def)

lemma section_block:
  assumes pre: "\<And>l. l \<in> set pre \<Longrightarrow> l \<noteq> header"
    and deep: "\<And>p. p \<in> set t \<Longrightarrow> indent header < indent p \<and> indent p < length p"
    and post: "post = [] \<or> \<not> indent header < indent (hd post)"
  shows "section_lines header (pre @ header # block t fs xs @ post)
       = concat (map (\<lambda>x. map2 (@) t (fs x)) xs)"
proof (cases "xs = []")
  case True
  have "section_lines header (pre @ header # [] @ ([] # post)) = []"
    by (rule section_lines_found) (use pre in \<open>simp_all add: indent_Nil\<close>)
  then show ?thesis using True by (simp add: block_def)
next
  case False
  have "indent header < indent l" if "l \<in> set (block t fs xs)" for l
  proof -
    from in_block [OF that] False that obtain p v where pv: "p \<in> set t" "l = p @ v"
      by (auto simp: block_def dest!: set_zip_leftD)
    then show ?thesis using deep [OF pv(1)] by (simp add: indent_append)
  qed
  then have "section_lines header (pre @ header # block t fs xs @ post) = block t fs xs"
    using pre post by (intro section_lines_found) auto
  then show ?thesis using False by (simp add: block_def)
qed

lemma parse_section_block:
  assumes pre: "\<And>l. l \<in> set pre \<Longrightarrow> l \<noteq> header"
    and deep: "\<And>p. p \<in> set t \<Longrightarrow> indent header < indent p \<and> indent p < length p"
    and post: "post = [] \<or> \<not> indent header < indent (hd post)"
    and t: "t \<noteq> []" and len: "\<And>x. x \<in> set xs \<Longrightarrow> length (fs x) = length t"
  shows "parse_items t (section_lines header (pre @ header # block t fs xs @ post)) = Some (map fs xs)"
  by (simp only: section_block [OF pre deep post] parse_items_items [OF t len])

subsection \<open>The lines of the five documents\<close>

lemma enumerate_py_snd: "(idx, v) \<in> set (enumerate_py xs) \<Longrightarrow> v \<in> set xs"
  by (auto simp: enumerate_py_def dest: set_zip_rightD)

lemma length_enumerate_py: "length (enumerate_py xs) = length xs"
  by (simp add: enumerate_py_def length_range_py)

lemma nth_enumerate_py: "k < length xs \<Longrightarrow> enumerate_py xs ! k = (int k, xs ! k)"
  by (simp add: enumerate_py_def length_range_py nth_range_py)

lemma enumerate_py_eq: "enumerate_py xs = map (\<lambda>k. (int k, xs ! k)) [0..<length xs]"
  by (rule nth_equalityI) (simp_all add: length_enumerate_py nth_enumerate_py)

lemma configmap_lines_ok:
  "l \<in> set (configmap_lines r i) \<Longrightarrow> CHR ''\<newline>'' \<notin> set l \<and> l \<noteq> ''---''"
  by (auto simp: configmap_lines_def)

lemma secret_lines_ok:
  "l \<in> set (secret_lines r i) \<Longrightarrow> CHR ''\<newline>'' \<notin> set l \<and> l \<noteq> ''---''"
  by (auto simp: secret_lines_def)

lemma service_lines_ok:
  "l \<in> set (service_lines r i) \<Longrightarrow> CHR ''\<newline>'' \<notin> set l \<and> l \<noteq> ''---''"
  by (auto simp: service_lines_def)

lemma deployment_head_ok:
  "l \<in> set (deployment_head r i) \<Longrightarrow> CHR ''\<newline>'' \<notin> set l \<and> l \<noteq> ''---''"
  by (auto simp: deployment_head_def)

lemma sidecar_lines_ok:
  "l \<in> set sidecar_lines \<Longrightarrow> CHR ''\<newline>'' \<notin> set l \<and> l \<noteq> ''---''"
  by (auto simp: sidecar_lines_def)

lemma templates_start_with_space:
  "p \<in> set env_template \<Longrightarrow> p \<noteq> [] \<and> hd p = CHR '' ''"
  "p \<in> set env_from_template \<Longrightarrow> p \<noteq> [] \<and> hd p = CHR '' ''"
  "p \<in> set volume_mount_template \<Longrightarrow> p \<noteq> [] \<and> hd p = CHR '' ''"
  "p \<in> set volume_template \<Longrightarrow> p \<noteq> [] \<and> hd p = CHR '' ''"
  "p \<in> set path_template \<Longrightarrow> p \<noteq> [] \<and> hd p = CHR '' ''"
  by (auto simp: env_template_def env_from_template_def volume_mount_template_def
      volume_template_def path_template_def)

lemma block_not_separator:
  assumes "l \<in> set (block t fs xs)" and "\<And>p. p \<in> set t \<Longrightarrow> p \<noteq> [] \<and> hd p = CHR '' ''"
  shows "l \<noteq> ''---''"
  using block_starts_with_space [OF assms] by auto

subsection \<open>The documents of a release\<close>

lemma env_fields_no_newline:
  assumes "\<And>s. s \<in> set fqdns \<Longrightarrow> CHR ''\<newline>'' \<notin> set s"
    and "x \<in> set (enumerate_py fqdns)" "v \<in> set (env_fields x)"
  shows "CHR ''\<newline>'' \<notin> set v"
proof -
  obtain idx fqdn where x: "x = (idx, fqdn)" by (cases x)
  then have "fqdn \<in> set fqdns" using assms(2) by (auto dest: enumerate_py_snd)
  then show ?thesis using assms(1,3) x by (auto simp: env_fields_def)
qed

lemma volume_fields_no_newline:
  assumes "\<And>s. s \<in> set cm_names \<Longrightarrow> CHR ''\<newline>'' \<notin> set s"
    and "x \<in> set (enumerate_py cm_names)" "v \<in> set (volume_fields x)"
  shows "CHR ''\<newline>'' \<notin> set v"
proof -
  obtain idx name where x: "x = (idx, name)" by (cases x)
  then have "name \<in> set cm_names" using assms(2) by (auto dest: enumerate_py_snd)
  then show ?thesis using assms(1,3) x by (auto simp: volume_fields_def)
qed

lemma other_fields_no_newline:
  "v \<in> set (env_from_fields r j) \<Longrightarrow> CHR ''\<newline>'' \<notin> set v"
  "v \<in> set (volume_mount_fields idx) \<Longrightarrow> CHR ''\<newline>'' \<notin> set v"
  "v \<in> set (path_fields r j) \<Longrightarrow> CHR ''\<newline>'' \<notin> set v"
  by (auto simp: env_from_fields_def volume_mount_fields_def path_fields_def)

lemma templates_ok:
  "p \<in> set env_template \<Longrightarrow> CHR ''\<newline>'' \<notin> set p \<and> p \<noteq> [] \<and> hd p = CHR '' ''"
  "p \<in> set env_from_template \<Longrightarrow> CHR ''\<newline>'' \<notin> set p \<and> p \<noteq> [] \<and> hd p = CHR '' ''"
  "p \<in> set volume_mount_template \<Longrightarrow> CHR ''\<newline>'' \<notin> set p \<and> p \<noteq> [] \<and> hd p = CHR '' ''"
  "p \<in> set volume_template \<Longrightarrow> CHR ''\<newline>'' \<notin> set p \<and> p \<noteq> [] \<and> hd p = CHR '' ''"
  "p \<in> set path_template \<Longrightarrow> CHR ''\<newline>'' \<notin> set p \<and> p \<noteq> [] \<and> hd p = CHR '' ''"
  by (auto simp: env_template_def env_from_template_def volume_mount_template_def
      volume_template_def path_template_def)

lemma block_ok:
  assumes "l \<in> set (block t fs xs)"
    and t: "\<And>p. p \<in> set t \<Longrightarrow> CHR ''\<newline>'' \<notin> set p \<and> p \<noteq> [] \<and> hd p = CHR '' ''"
    and "\<And>x v. x \<in> set xs \<Longrightarrow> v \<in> set (fs x) \<Longrightarrow> CHR ''\<newline>'' \<notin> set v"
  shows "CHR ''\<newline>'' \<notin> set l \<and> l \<noteq> ''---''"
proof
  show "CHR ''\<newline>'' \<notin> set l"
    using assms(1) by (rule block_no_newline) (use t assms(3) in blast)+
  show "l \<noteq> ''---''"
    using assms(1) by (rule block_not_separator) (use t in blast)
qed

lemma deployment_lines_cases:
  assumes "l \<in> set (deployment_lines r n cm_names fqdns i)"
  shows "l \<in> set (deployment_head r i) \<or> l \<in> set sidecar_lines
       \<or> l \<in> {''          env:'', ''          envFrom:'', ''          volumeMounts:'', ''      volumes:''}
       \<or> l \<in> set (block env_template env_fields (enumerate_py fqdns))
       \<or> l \<in> set (block env_from_template (env_from_fields r) (range_py n))
       \<or> l \<in> set (block volume_mount_template volume_mount_fields (range_py (int (length cm_names))))
       \<or> l \<in> set (block volume_template volume_fields (enumerate_py cm_names))"
  using assms unfolding deployment_lines_def by auto

lemma deployment_lines_ok:
  assumes cm: "\<And>s. s \<in> set cm_names \<Longrightarrow> CHR ''\<newline>'' \<notin> set s"
    and fq: "\<And>s. s \<in> set fqdns \<Longrightarrow> CHR ''\<newline>'' \<notin> set s"
    and l: "l \<in> set (deployment_lines r n cm_names fqdns i)"
  shows "CHR ''\<newline>'' \<notin> set l \<and> l \<noteq> ''---''"
proof -
  consider "l \<in> set (deployment_head r i)" | "l \<in> set sidecar_lines"
    | "l \<in> {''          env:'', ''          envFrom:'', ''          volumeMounts:'', ''      volumes:''}"
    | "l \<in> set (block env_template env_fields (enumerate_py fqdns))"
    | "l \<in> set (block env_from_template (env_from_fields r) (range_py n))"
    | "l \<in> set (block volume_mount_template volume_mount_fields (range_py (int (length cm_names))))"
    | "l \<in> set (block volume_template volume_fields (enumerate_py cm_names))"
    using deployment_lines_cases [OF l] by blast
  then show ?thesis
  proof cases
    case 1
    then show ?thesis by (rule deployment_head_ok)
  next
    case 2
    then show ?thesis by (rule sidecar_lines_ok)
  next
    case 3
    then show ?thesis by auto
  next
    case 4
    then show ?thesis by (rule block_ok [OF _ templates_ok(1) env_fields_no_newline [OF fq]])
  next
    case 5
    then show ?thesis by (rule block_ok [OF _ templates_ok(2) other_fields_no_newline(1)])
  next
    case 6
    then show ?thesis by (rule block_ok [OF _ templates_ok(3) other_fields_no_newline(2)])
  next
    case 7
    then show ?thesis by (rule block_ok [OF _ templates_ok(4) volume_fields_no_newline [OF cm]])
  qed
qed

lemma ingress_lines_ok:
  assumes "l \<in> set (ingress_lines r n)"
  shows "CHR ''\<newline>'' \<notin> set l \<and> l \<noteq> ''---''"
proof -
  have "l \<in> set (ingress_head r) \<or> l = ''        paths:''
      \<or> l \<in> set (block path_template (path_fields r) (range_py n))"
    using assms by (auto simp: ingress_lines_def)
  then show ?thesis
  proof (elim disjE)
    assume "l \<in> set (ingress_head r)"
    then show ?thesis by (auto simp: ingress_head_def)
  next
    assume "l = ''        paths:''"
    then show ?thesis by simp
  next
    assume "l \<in> set (block path_template (path_fields r) (range_py n))"
    then show ?thesis by (rule block_ok [OF _ templates_ok(5) other_fields_no_newline(3)])
  qed
qed

lemma generate_release_lines:
  "generate_release r n cm_names fqdns = join ''---\<newline>'' (map unlines (release_lines r n cm_names fqdns))"
proof -
  have "configmap_doc r = (\<lambda>i. unlines (configmap_lines r i))"
    "secret_doc r = (\<lambda>i. unlines (secret_lines r i))"
    "deployment_doc r n cm_names fqdns = (\<lambda>i. unlines (deployment_lines r n cm_names fqdns i))"
    "service_doc r = (\<lambda>i. unlines (service_lines r i))"
    by (rule ext, simp add: configmap_doc_lines secret_doc_lines deployment_doc_lines
        service_doc_lines)+
  then show ?thesis
    by (simp add: generate_release_def docs_of_eq release_lines_def ingress_doc_lines comp_def)
qed

lemma release_lines_ok:
  assumes cm: "\<And>s. s \<in> set cm_names \<Longrightarrow> CHR ''\<newline>'' \<notin> set s"
    and fq: "\<And>s. s \<in> set fqdns \<Longrightarrow> CHR ''\<newline>'' \<notin> set s"
    and d: "d \<in> set (release_lines r n cm_names fqdns)" and l: "l \<in> set d"
  shows "CHR ''\<newline>'' \<notin> set l \<and> l \<noteq> ''---''"
proof -
  from d consider i where "d = configmap_lines r i" | i where "d = secret_lines r i"
    | i where "d = deployment_lines r n cm_names fqdns i" | i where "d = service_lines r i"
    | "d = ingress_lines r n"
    unfolding release_lines_def by auto
  then show ?thesis
  proof cases
    case 1 then show ?thesis using l configmap_lines_ok by blast
  next
    case 2 then show ?thesis using l secret_lines_ok by blast
  next
    case 3 then show ?thesis using l deployment_lines_ok [OF cm fq] by blast
  next
    case 4 then show ?thesis using l service_lines_ok by blast
  next
    case 5 then show ?thesis using l ingress_lines_ok by blast
  qed
qed

lemma documents_generate_release:
  assumes cm: "\<And>s. s \<in> set cm_names \<Longrightarrow> CHR ''\<newline>'' \<notin> set s"
    and fq: "\<And>s. s \<in> set fqdns \<Longrightarrow> CHR ''\<newline>'' \<notin> set s"
  shows "documents (generate_release r n cm_names fqdns) = release_lines r n cm_names fqdns"
  unfolding generate_release_lines
proof (rule documents_join)
  show "release_lines r n cm_names fqdns \<noteq> []" by (simp add: release_lines_def)
  show "CHR ''\<newline>'' \<notin> set l" if "d \<in> set (release_lines r n cm_names fqdns)" "l \<in> set d" for d l
    using release_lines_ok [OF cm fq that] by simp
  show "''---'' \<notin> set d" if "d \<in> set (release_lines r n cm_names fqdns)" for d
    using release_lines_ok [OF cm fq that] by blast
qed

subsection \<open>The kind of each document\<close>

lemma map_filter_append: "List.map_filter f (xs @ ys) = List.map_filter f xs @ List.map_filter f ys"
  by (simp add: List.map_filter_def)

lemma strip_prefix_kind_indented: "l = [] \<or> hd l = CHR '' '' \<Longrightarrow> strip_prefix ''kind: '' l = None"
  by (cases l) (auto simp: strip_prefix_def)

lemma kinds_of_indented:
  "(\<And>l. l \<in> set ls \<Longrightarrow> l = [] \<or> hd l = CHR '' '') \<Longrightarrow> kinds_of ls = []"
  unfolding kinds_of_def
  by (induction ls) (simp_all add: List.map_filter_simps strip_prefix_kind_indented)

lemma kinds_of_append: "kinds_of (xs @ ys) = kinds_of xs @ kinds_of ys"
  by (simp add: kinds_of_def map_filter_append)

lemma kinds_of_block:
  "(\<And>p. p \<in> set t \<Longrightarrow> p \<noteq> [] \<and> hd p = CHR '' '') \<Longrightarrow> kinds_of (block t fs xs) = []"
  by (rule kinds_of_indented) (rule block_starts_with_space)

lemma kinds_of_configmap: "kinds_of (configmap_lines r i) = [''ConfigMap'']"
  by (simp add: kinds_of_def configmap_lines_def List.map_filter_simps strip_prefix_def)

lemma kinds_of_secret: "kinds_of (secret_lines r i) = [''Secret'']"
  by (simp add: kinds_of_def secret_lines_def List.map_filter_simps strip_prefix_def)

lemma kinds_of_service: "kinds_of (service_lines r i) = [''Service'']"
  by (simp add: kinds_of_def service_lines_def List.map_filter_simps strip_prefix_def)

lemma kinds_of_head: "kinds_of (deployment_head r i) = [''Deployment'']"
  by (simp add: kinds_of_def deployment_head_def List.map_filter_simps strip_prefix_def)

lemma kinds_of_sidecar: "kinds_of sidecar_lines = []"
  by (simp add: kinds_of_def sidecar_lines_def List.map_filter_simps strip_prefix_def)

lemma kinds_of_Cons_indented: "hd l = CHR '' '' \<Longrightarrow> kinds_of (l # ls) = kinds_of ls"
  by (simp add: kinds_of_def List.map_filter_simps strip_prefix_kind_indented)

lemma kinds_of_deployment: "kinds_of (deployment_lines r n cm_names fqdns i) = [''Deployment'']"
  by (simp add: deployment_lines_def kinds_of_append kinds_of_head kinds_of_sidecar
      kinds_of_Cons_indented kinds_of_block templates_start_with_space)

lemma kinds_of_ingress_head: "kinds_of (ingress_head r) = [''Ingress'']"
  by (simp add: kinds_of_def ingress_head_def List.map_filter_simps strip_prefix_def)

lemma kinds_of_ingress: "kinds_of (ingress_lines r n) = [''Ingress'']"
  by (simp add: ingress_lines_def kinds_of_append kinds_of_ingress_head kinds_of_Cons_indented
      kinds_of_block templates_start_with_space)

subsection \<open>The lists of a Deployment and of the Ingress, read back\<close>

lemma template_depths:
  "p \<in> set env_template \<Longrightarrow> indent ''          env:'' < indent p \<and> indent p < length p"
  "p \<in> set env_from_template \<Longrightarrow> indent ''          envFrom:'' < indent p \<and> indent p < length p"
  "p \<in> set volume_mount_template \<Longrightarrow>
     indent ''          volumeMounts:'' < indent p \<and> indent p < length p"
  "p \<in> set volume_template \<Longrightarrow> indent ''      volumes:'' < indent p \<and> indent p < length p"
  "p \<in> set path_template \<Longrightarrow> indent ''        paths:'' < indent p \<and> indent p < length p"
  by (auto simp: env_template_def env_from_template_def volume_mount_template_def
      volume_template_def path_template_def indent_def)

lemma template_lengths:
  "length (env_fields x) = length env_template"
  "length (env_from_fields r j) = length env_from_template"
  "length (volume_mount_fields idx) = length volume_mount_template"
  "length (volume_fields y) = length volume_template"
  "length (path_fields r j) = length path_template"
  by (simp_all add: env_template_def env_from_template_def volume_mount_template_def
      volume_template_def path_template_def env_fields_def env_from_fields_def
      volume_mount_fields_def volume_fields_def path_fields_def split: prod.split)

lemma templates_nonempty:
  "env_template \<noteq> []" "env_from_template \<noteq> []" "volume_mount_template \<noteq> []"
  "volume_template \<noteq> []" "path_template \<noteq> []"
  by (simp_all add: env_template_def env_from_template_def volume_mount_template_def
      volume_template_def path_template_def)

lemma headers_not_in_head:
  "''          env:'' \<notin> set (deployment_head r i)"
  "''          envFrom:'' \<notin> set (deployment_head r i)"
  "''          volumeMounts:'' \<notin> set (deployment_head r i)"
  "''      volumes:'' \<notin> set (deployment_head r i)"
  by (simp_all add: deployment_head_def)

lemma headers_not_in_sidecar: "''      volumes:'' \<notin> set sidecar_lines"
  by (simp add: sidecar_lines_def)

lemma headers_not_in_blocks:
  "''          envFrom:'' \<notin> set (block env_template fs1 xs1)"
  "''          volumeMounts:'' \<notin> set (block env_template fs1 xs1)"
  "''          volumeMounts:'' \<notin> set (block env_from_template fs2 xs2)"
  "''      volumes:'' \<notin> set (block env_template fs1 xs1)"
  "''      volumes:'' \<notin> set (block env_from_template fs2 xs2)"
  "''      volumes:'' \<notin> set (block volume_mount_template fs3 xs3)"
  by (rule block_notin; auto simp: env_template_def env_from_template_def volume_mount_template_def)+

lemma env_of_deployment:
  "env_of (deployment_lines r n cm_names fqdns i) = Some (map env_fields (enumerate_py fqdns))"
proof -
  let ?post = "''          envFrom:'' # block env_from_template (env_from_fields r) (range_py n)
     @ ''          volumeMounts:''
       # block volume_mount_template volume_mount_fields (range_py (int (length cm_names)))
     @ sidecar_lines
     @ ''      volumes:'' # block volume_template volume_fields (enumerate_py cm_names)"
  have shape: "deployment_lines r n cm_names fqdns i
      = deployment_head r i @ ''          env:'' # block env_template env_fields (enumerate_py fqdns) @ ?post"
    by (simp add: deployment_lines_def)
  have "parse_items env_template (section_lines ''          env:''
      (deployment_head r i @ ''          env:'' # block env_template env_fields (enumerate_py fqdns) @ ?post))
      = Some (map env_fields (enumerate_py fqdns))"
  proof (rule parse_section_block)
    show "l \<noteq> ''          env:''" if "l \<in> set (deployment_head r i)" for l
      using that headers_not_in_head(1) by blast
    show "?post = [] \<or> \<not> indent ''          env:'' < indent (hd ?post)"
      by (simp add: indent_def)
  qed (simp_all add: template_depths template_lengths templates_nonempty)
  then show ?thesis by (simp only: env_of_def shape)
qed

lemma env_from_of_deployment:
  "env_from_of (deployment_lines r n cm_names fqdns i) = Some (map (env_from_fields r) (range_py n))"
proof -
  let ?pre = "deployment_head r i @ ''          env:'' # block env_template env_fields (enumerate_py fqdns)"
  let ?post = "''          volumeMounts:''
       # block volume_mount_template volume_mount_fields (range_py (int (length cm_names)))
     @ sidecar_lines
     @ ''      volumes:'' # block volume_template volume_fields (enumerate_py cm_names)"
  have shape: "deployment_lines r n cm_names fqdns i
      = ?pre @ ''          envFrom:'' # block env_from_template (env_from_fields r) (range_py n) @ ?post"
    by (simp add: deployment_lines_def)
  have "parse_items env_from_template (section_lines ''          envFrom:''
      (?pre @ ''          envFrom:'' # block env_from_template (env_from_fields r) (range_py n) @ ?post))
      = Some (map (env_from_fields r) (range_py n))"
  proof (rule parse_section_block)
    show "l \<noteq> ''          envFrom:''" if "l \<in> set ?pre" for l
      using that by (auto simp: headers_not_in_head headers_not_in_blocks)
    show "?post = [] \<or> \<not> indent ''          envFrom:'' < indent (hd ?post)"
      by (simp add: indent_def)
  qed (simp_all add: template_depths template_lengths templates_nonempty)
  then show ?thesis by (simp only: env_from_of_def shape)
qed

lemma volume_mounts_of_deployment:
  "volume_mounts_of (deployment_lines r n cm_names fqdns i)
     = Some (map volume_mount_fields (range_py (int (length cm_names))))"
proof -
  let ?pre = "deployment_head r i @ ''          env:'' # block env_template env_fields (enumerate_py fqdns)
     @ ''          envFrom:'' # block env_from_template (env_from_fields r) (range_py n)"
  let ?post = "sidecar_lines
     @ ''      volumes:'' # block volume_template volume_fields (enumerate_py cm_names)"
  let ?b = "block volume_mount_template volume_mount_fields (range_py (int (length cm_names)))"
  have shape: "deployment_lines r n cm_names fqdns i = ?pre @ ''          volumeMounts:'' # ?b @ ?post"
    by (simp add: deployment_lines_def)
  have "parse_items volume_mount_template (section_lines ''          volumeMounts:''
      (?pre @ ''          volumeMounts:'' # ?b @ ?post))
      = Some (map volume_mount_fields (range_py (int (length cm_names))))"
  proof (rule parse_section_block)
    show "l \<noteq> ''          volumeMounts:''" if "l \<in> set ?pre" for l
      using that by (auto simp: headers_not_in_head headers_not_in_blocks)
    show "?post = [] \<or> \<not> indent ''          volumeMounts:'' < indent (hd ?post)"
      by (simp add: indent_def sidecar_lines_def)
  qed (simp_all add: template_depths template_lengths templates_nonempty)
  then show ?thesis by (simp only: volume_mounts_of_def shape)
qed

lemma volumes_of_deployment:
  "volumes_of (deployment_lines r n cm_names fqdns i) = Some (map volume_fields (enumerate_py cm_names))"
proof -
  let ?pre = "deployment_head r i @ ''          env:'' # block env_template env_fields (enumerate_py fqdns)
     @ ''          envFrom:'' # block env_from_template (env_from_fields r) (range_py n)
     @ ''          volumeMounts:''
       # block volume_mount_template volume_mount_fields (range_py (int (length cm_names)))
     @ sidecar_lines"
  let ?b = "block volume_template volume_fields (enumerate_py cm_names)"
  have shape: "deployment_lines r n cm_names fqdns i = ?pre @ ''      volumes:'' # ?b @ []"
    by (simp add: deployment_lines_def)
  have "parse_items volume_template (section_lines ''      volumes:'' (?pre @ ''      volumes:'' # ?b @ []))
      = Some (map volume_fields (enumerate_py cm_names))"
  proof (rule parse_section_block)
    show "l \<noteq> ''      volumes:''" if "l \<in> set ?pre" for l
      using that by (auto simp: headers_not_in_head headers_not_in_blocks headers_not_in_sidecar)
  qed (simp_all add: template_depths template_lengths templates_nonempty)
  then show ?thesis by (simp only: volumes_of_def shape)
qed

lemma paths_of_ingress:
  "paths_of (ingress_lines r n) = Some (map (path_fields r) (range_py n))"
proof -
  let ?b = "block path_template (path_fields r) (range_py n)"
  have shape: "ingress_lines r n = ingress_head r @ ''        paths:'' # ?b @ []"
    by (simp add: ingress_lines_def)
  have "parse_items path_template (section_lines ''        paths:'' (ingress_head r @ ''        paths:'' # ?b @ []))
      = Some (map (path_fields r) (range_py n))"
  proof (rule parse_section_block)
    show "l \<noteq> ''        paths:''" if "l \<in> set (ingress_head r)" for l
      using that by (auto simp: ingress_head_def)
  qed (simp_all add: template_depths template_lengths templates_nonempty)
  then show ?thesis by (simp only: paths_of_def shape)
qed

subsection \<open>Positions in a release and lookup by name\<close>

lemma names_no_newline:
  "s \<in> set (all_configmap_names n) \<Longrightarrow> CHR ''\<newline>'' \<notin> set s"
  "s \<in> set (all_service_fqdns n) \<Longrightarrow> CHR ''\<newline>'' \<notin> set s"
  by (auto simp: all_configmap_names_def all_service_fqdns_def)

lemma docs_of_nth:
  assumes "0 \<le> i" "i < n"
  shows "docs_of r n cm_names fqdns ! nat i = configmap_doc r i"
    and "docs_of r n cm_names fqdns ! nat (n + i) = secret_doc r i"
    and "docs_of r n cm_names fqdns ! nat (2 * n + i) = deployment_doc r n cm_names fqdns i"
    and "docs_of r n cm_names fqdns ! nat (3 * n + i) = service_doc r i"
proof -
  have k: "nat i < nat n" using assms by simp
  have e: "nat (n + i) = nat n + nat i" "nat (2 * n + i) = nat n + (nat n + nat i)"
    "nat (3 * n + i) = nat n + (nat n + (nat n + nat i))"
    using assms by simp_all
  have v: "range_py n ! nat i = i" using assms by (simp add: nth_range_py)
  show "docs_of r n cm_names fqdns ! nat i = configmap_doc r i"
    using k v by (simp add: docs_of_eq nth_append length_range_py)
  show "docs_of r n cm_names fqdns ! nat (n + i) = secret_doc r i"
    using k v by (simp add: docs_of_eq nth_append length_range_py e)
  show "docs_of r n cm_names fqdns ! nat (2 * n + i) = deployment_doc r n cm_names fqdns i"
    using k v by (simp add: docs_of_eq nth_append length_range_py e)
  show "docs_of r n cm_names fqdns ! nat (3 * n + i) = service_doc r i"
    using k v by (simp add: docs_of_eq nth_append length_range_py e)
qed

lemma docs_of_last:
  "0 \<le> n \<Longrightarrow> docs_of r n cm_names fqdns ! nat (4 * n) = ingress_doc r n"
proof -
  assume "0 \<le> n"
  then have "nat (4 * n) = nat n + (nat n + (nat n + nat n))" by simp
  then show ?thesis by (simp add: docs_of_eq nth_append length_range_py)
qed

lemma length_docs_of: "length (docs_of r n cm_names fqdns) = 4 * nat n + 1"
  by (simp add: docs_of_eq length_range_py)

lemma release_lines_nth:
  assumes "0 \<le> i" "i < n"
  shows "release_lines r n cm_names fqdns ! nat (2 * n + i) = deployment_lines r n cm_names fqdns i"
proof -
  have k: "nat i < nat n" using assms by simp
  have e: "nat (2 * n + i) = nat n + (nat n + nat i)" using assms by simp
  have v: "range_py n ! nat i = i" using assms by (simp add: nth_range_py)
  show ?thesis using k v by (simp add: release_lines_def nth_append length_range_py e)
qed

lemma release_lines_last: "last (release_lines r n cm_names fqdns) = ingress_lines r n"
  by (simp add: release_lines_def)

lemma kinds_of_release:
  "map kinds_of (release_lines r n cm_names fqdns)
     = replicate (nat n) [''ConfigMap''] @ replicate (nat n) [''Secret'']
       @ replicate (nat n) [''Deployment''] @ replicate (nat n) [''Service''] @ [[''Ingress'']]"
  by (simp add: release_lines_def comp_def kinds_of_configmap kinds_of_secret kinds_of_deployment
      kinds_of_service kinds_of_ingress map_replicate_const length_range_py)

lemma find_map_unique:
  assumes "k < length xs" and "\<And>j. j < length xs \<Longrightarrow> P (f (xs ! j)) \<longleftrightarrow> j = k"
  shows "List.find P (map f xs) = Some (f (xs ! k))"
  unfolding find_Some_iff using assms by (intro exI [of _ k]) auto

lemma field_of_items:
  assumes "k < length xs" and "\<And>j. j < length xs \<Longrightarrow> f (xs ! j) \<noteq> []"
    and "\<And>j. j < length xs \<Longrightarrow> hd (f (xs ! j)) = name \<longleftrightarrow> j = k"
    and "m < length (f (xs ! k))"
  shows "field_of (Some (map f xs)) name m = Some (f (xs ! k) ! m)"
proof -
  have "List.find (\<lambda>it. it \<noteq> [] \<and> hd it = name) (map f xs) = Some (f (xs ! k))"
    using assms(1) by (rule find_map_unique) (use assms(2,3) in auto)
  then show ?thesis using assms(4) by (simp add: field_of_def)
qed

lemma cm_key_inj: "0 \<le> a \<Longrightarrow> 0 \<le> b \<Longrightarrow> ''cm-'' @ fmt_0d 4 a = ''cm-'' @ fmt_0d 4 b \<longleftrightarrow> a = b"
  by (auto dest: fmt_0d_inj)

lemma volume_binding:
  assumes "0 \<le> idx" "nat idx < length cm_names"
  shows "field_of (Some (map volume_fields (enumerate_py cm_names))) (''cm-'' @ fmt_0d 4 idx) 2
       = Some (cm_names ! nat idx)"
proof -
  have f: "volume_fields (enumerate_py cm_names ! j) = [''cm-'' @ fmt_0d 4 (int j), [], cm_names ! j]"
    if "j < length cm_names" for j
    using that by (simp add: nth_enumerate_py volume_fields_def)
  have "field_of (Some (map volume_fields (enumerate_py cm_names))) (''cm-'' @ fmt_0d 4 idx) 2
      = Some (volume_fields (enumerate_py cm_names ! nat idx) ! 2)"
  proof (rule field_of_items)
    show "nat idx < length (enumerate_py cm_names)" using assms by (simp add: length_enumerate_py)
    show "volume_fields (enumerate_py cm_names ! j) \<noteq> []" if "j < length (enumerate_py cm_names)" for j
      using that by (simp add: f length_enumerate_py)
    show "hd (volume_fields (enumerate_py cm_names ! j)) = ''cm-'' @ fmt_0d 4 idx \<longleftrightarrow> j = nat idx"
      if "j < length (enumerate_py cm_names)" for j
    proof -
      have "''cm-'' @ fmt_0d 4 (int j) = ''cm-'' @ fmt_0d 4 idx \<longleftrightarrow> int j = idx"
        using assms(1) by (intro cm_key_inj) simp_all
      then show ?thesis using that assms(1) by (auto simp: f length_enumerate_py)
    qed
    show "2 < length (volume_fields (enumerate_py cm_names ! nat idx))"
      using assms by (simp add: f)
  qed
  then show ?thesis using assms by (simp add: f)
qed

lemma volume_mount_binding:
  assumes "0 \<le> idx" "idx < m"
  shows "field_of (Some (map volume_mount_fields (range_py m))) (''cm-'' @ fmt_0d 4 idx) 1
       = Some (''/etc/config/'' @ fmt_0d 4 idx)"
proof -
  have r: "range_py m ! j = int j" if "j < length (range_py m)" for j
    using that by (simp add: length_range_py nth_range_py)
  have "field_of (Some (map volume_mount_fields (range_py m))) (''cm-'' @ fmt_0d 4 idx) 1
      = Some (volume_mount_fields (range_py m ! nat idx) ! 1)"
  proof (rule field_of_items)
    show "nat idx < length (range_py m)" using assms by (simp add: length_range_py)
    show "volume_mount_fields (range_py m ! j) \<noteq> []" for j
      by (simp add: volume_mount_fields_def)
    show "hd (volume_mount_fields (range_py m ! j)) = ''cm-'' @ fmt_0d 4 idx \<longleftrightarrow> j = nat idx"
      if "j < length (range_py m)" for j
    proof -
      have "''cm-'' @ fmt_0d 4 (int j) = ''cm-'' @ fmt_0d 4 idx \<longleftrightarrow> int j = idx"
        using assms(1) by (intro cm_key_inj) simp_all
      then show ?thesis using that assms(1) by (auto simp: r volume_mount_fields_def)
    qed
    show "1 < length (volume_mount_fields (range_py m ! nat idx))"
      by (simp add: volume_mount_fields_def)
  qed
  moreover have "range_py m ! nat idx = idx" using assms by (simp add: nth_range_py)
  ultimately show ?thesis by (simp add: volume_mount_fields_def)
qed

subsection \<open>Facts shared by the claims about a Deployment\<close>

lemma deployment_document:
  assumes "0 \<le> i" "i < n"
    and "\<forall>s \<in> set cm_names. CHR ''\<newline>'' \<notin> set s" "\<forall>s \<in> set fqdns. CHR ''\<newline>'' \<notin> set s"
  shows "documents (generate_release r n cm_names fqdns) ! nat (2 * n + i)
       = deployment_lines r n cm_names fqdns i"
  using assms by (simp add: documents_generate_release release_lines_nth)

lemma length_names:
  "length (all_configmap_names n) = nat n * nat n" "length (all_service_fqdns n) = nat n * nat n"
  by (simp_all add: all_configmap_names_def all_service_fqdns_def length_pairs)

lemma nth_volume_entries:
  "k < length cm_names \<Longrightarrow> volume_entries cm_names ! k = volume_entry (int k) (cm_names ! k)"
  by (simp add: volume_entries_def length_enumerate_py nth_enumerate_py)

lemma nth_volume_mount_entries:
  "k < length cm_names \<Longrightarrow> volume_mount_entries cm_names ! k = volume_mount_entry (int k)"
  by (simp add: volume_mount_entries_def length_range_py nth_range_py)

lemma env_fields_enumerate:
  "map env_fields (enumerate_py fqdns)
     = map (\<lambda>k. [''SVC_'' @ fmt_0d 4 (int k), CHR 0x22 # ''http://'' @ fqdns ! k @ '':8080/api'' @ [CHR 0x22]])
         [0..<length fqdns]"
  by (simp add: enumerate_py_eq env_fields_def)

section \<open>The claims\<close>

subsection \<open>C1: a volume is bound by its position\<close>

text \<open>
  Claim C1. For every \<open>n \<ge> 1\<close>, every release index, every deployment index \<open>i\<close> in
  \<open>[0, n)\<close> and every \<open>idx\<close> in \<open>[0, n\<^sup>2)\<close>: in the \<open>i\<close>-th Deployment document of the text that
  \<open>generate_release\<close> returns for \<open>cm_names = all_configmap_names n\<close>, the volume named
  \<^verbatim>\<open>cm-{idx:04d}\<close> is bound to the configmap name at position \<open>idx\<close> of \<open>cm_names\<close>, and the
  volumeMount of that name mounts at \<^verbatim>\<open>/etc/config/{idx:04d}\<close>. Both are read off the text
  of the document (the Deployments follow the \<open>n\<close> ConfigMaps and the \<open>n\<close> Secrets); the
  last two conjuncts say the same of the items the two generator expressions produce.
  The FQDN list is any list of strings without a line break.
\<close>

theorem volume_names_bind_by_position:
  assumes "1 \<le> n" "0 \<le> i" "i < n" "0 \<le> idx" "idx < n * n"
    and "\<forall>s \<in> set fqdns. CHR ''\<newline>'' \<notin> set s"
  shows "field_of (volumes_of (documents (generate_release r n (all_configmap_names n) fqdns)
             ! nat (2 * n + i))) (''cm-'' @ fmt_0d 4 idx) 2
           = Some (all_configmap_names n ! nat idx)
       \<and> field_of (volume_mounts_of (documents (generate_release r n (all_configmap_names n) fqdns)
             ! nat (2 * n + i))) (''cm-'' @ fmt_0d 4 idx) 1
           = Some (''/etc/config/'' @ fmt_0d 4 idx)
       \<and> volume_entries (all_configmap_names n) ! nat idx
           = ''        - name: cm-'' @ fmt_0d 4 idx @ ''\<newline>'' @ ''          configMap:\<newline>''
             @ ''            name: '' @ all_configmap_names n ! nat idx
       \<and> volume_mount_entries (all_configmap_names n) ! nat idx
           = ''            - name: cm-'' @ fmt_0d 4 idx @ ''\<newline>''
             @ ''              mountPath: /etc/config/'' @ fmt_0d 4 idx @ ''\<newline>''
             @ ''              readOnly: true''"
proof -
  have cm: "\<forall>s \<in> set (all_configmap_names n). CHR ''\<newline>'' \<notin> set s"
    by (simp add: names_no_newline)
  have doc: "documents (generate_release r n (all_configmap_names n) fqdns) ! nat (2 * n + i)
      = deployment_lines r n (all_configmap_names n) fqdns i"
    using assms(2,3) cm assms(6) by (rule deployment_document)
  have "nat idx < nat (n * n)" using assms(4,5) by simp
  then have k: "nat idx < length (all_configmap_names n)"
    using assms(1) by (simp add: length_names nat_mult_distrib)
  have m: "idx < int (length (all_configmap_names n))" using k assms(4) by simp
  have "field_of (volumes_of (deployment_lines r n (all_configmap_names n) fqdns i))
      (''cm-'' @ fmt_0d 4 idx) 2 = Some (all_configmap_names n ! nat idx)"
    unfolding volumes_of_deployment using assms(4) k by (rule volume_binding)
  moreover have "field_of (volume_mounts_of (deployment_lines r n (all_configmap_names n) fqdns i))
      (''cm-'' @ fmt_0d 4 idx) 1 = Some (''/etc/config/'' @ fmt_0d 4 idx)"
    unfolding volume_mounts_of_deployment using assms(4) m by (rule volume_mount_binding)
  moreover have "volume_entries (all_configmap_names n) ! nat idx
      = ''        - name: cm-'' @ fmt_0d 4 idx @ ''\<newline>'' @ ''          configMap:\<newline>''
        @ ''            name: '' @ all_configmap_names n ! nat idx"
    using k assms(4) by (simp add: nth_volume_entries volume_entry_def)
  moreover have "volume_mount_entries (all_configmap_names n) ! nat idx
      = ''            - name: cm-'' @ fmt_0d 4 idx @ ''\<newline>''
        @ ''              mountPath: /etc/config/'' @ fmt_0d 4 idx @ ''\<newline>''
        @ ''              readOnly: true''"
    using k assms(4) by (simp add: nth_volume_mount_entries volume_mount_entry_def)
  ultimately show ?thesis by (simp only: doc)
qed

theorem volume_names_bind_by_position_witness:
  "field_of (volumes_of (documents (generate_release 1 2 (all_configmap_names 2) (all_service_fqdns 2))
       ! nat (2 * 2 + 0))) (''cm-'' @ fmt_0d 4 3) 2
     = Some (all_configmap_names 2 ! nat 3)
   \<and> field_of (volume_mounts_of (documents (generate_release 1 2 (all_configmap_names 2) (all_service_fqdns 2))
       ! nat (2 * 2 + 0))) (''cm-'' @ fmt_0d 4 3) 1
     = Some (''/etc/config/'' @ fmt_0d 4 3)
   \<and> ''cm-'' @ fmt_0d 4 3 = ''cm-0003''
   \<and> all_configmap_names 2 ! nat 3 = ''r001-config-001''"
proof -
  have h: "(1::int) \<le> 2" "(0::int) \<le> 0" "(0::int) < 2" "(0::int) \<le> 3" "(3::int) < 2 * 2"
    by simp_all
  have fq: "\<forall>s \<in> set (all_service_fqdns 2). CHR ''\<newline>'' \<notin> set s"
    by (simp add: names_no_newline)
  have e: "''cm-'' @ fmt_0d 4 3 = ''cm-0003''" "all_configmap_names 2 ! nat 3 = ''r001-config-001''"
    by code_simp+
  from volume_names_bind_by_position [OF h fq, of 1] e show ?thesis by blast
qed

subsection \<open>C2: every Deployment carries the same three counts\<close>

text \<open>
  Claim C2. For every \<open>n \<ge> 1\<close> and every release index, each of the \<open>n\<close> Deployment
  documents of \<open>generate_release r n (all_configmap_names n) (all_service_fqdns n)\<close> has
  exactly \<open>n\<^sup>2\<close> volumeMount entries, exactly \<open>n\<^sup>2\<close> volume entries and exactly \<open>n\<^sup>2\<close>
  environment variables; the \<open>k\<close>-th variable is named \<^verbatim>\<open>SVC_{k:04d}\<close> and its value is the
  quoted URL \<^verbatim>\<open>http://<fqdn>:8080/api\<close> of the \<open>k\<close>-th FQDN. The first four conjuncts read the
  lists off the text of the document; the last three count the items of the three
  generator expressions.
\<close>

theorem deployment_reference_counts:
  assumes "1 \<le> n" "0 \<le> i" "i < n"
  shows "map_option (\<lambda>items. int (length items))
           (volume_mounts_of (documents (generate_release r n (all_configmap_names n) (all_service_fqdns n))
              ! nat (2 * n + i))) = Some (n * n)
       \<and> map_option (\<lambda>items. int (length items))
           (volumes_of (documents (generate_release r n (all_configmap_names n) (all_service_fqdns n))
              ! nat (2 * n + i))) = Some (n * n)
       \<and> map_option (\<lambda>items. int (length items))
           (env_of (documents (generate_release r n (all_configmap_names n) (all_service_fqdns n))
              ! nat (2 * n + i))) = Some (n * n)
       \<and> env_of (documents (generate_release r n (all_configmap_names n) (all_service_fqdns n))
              ! nat (2 * n + i))
           = Some (map (\<lambda>k. [''SVC_'' @ fmt_0d 4 (int k),
                               CHR 0x22 # ''http://'' @ all_service_fqdns n ! k @ '':8080/api'' @ [CHR 0x22]])
                     [0..<nat (n * n)])
       \<and> int (length (volume_mount_entries (all_configmap_names n))) = n * n
       \<and> int (length (volume_entries (all_configmap_names n))) = n * n
       \<and> int (length (env_var_entries (all_service_fqdns n))) = n * n"
proof -
  let ?cm = "all_configmap_names n" and ?fq = "all_service_fqdns n"
  have doc: "documents (generate_release r n ?cm ?fq) ! nat (2 * n + i) = deployment_lines r n ?cm ?fq i"
    using assms(2,3) by (rule deployment_document) (simp_all add: names_no_newline)
  have sq: "nat n * nat n = nat (n * n)" using assms(1) by (simp add: nat_mult_distrib)
  have l: "length ?cm = nat (n * n)" "length ?fq = nat (n * n)"
    by (simp_all add: length_names sq)
  have i: "int (nat (n * n)) = n * n" using assms(1) by simp
  have "map_option (\<lambda>items. int (length items)) (volume_mounts_of (deployment_lines r n ?cm ?fq i))
      = Some (n * n)"
    by (simp add: volume_mounts_of_deployment length_range_py l i)
  moreover have "map_option (\<lambda>items. int (length items)) (volumes_of (deployment_lines r n ?cm ?fq i))
      = Some (n * n)"
    by (simp add: volumes_of_deployment length_enumerate_py l i)
  moreover have "map_option (\<lambda>items. int (length items)) (env_of (deployment_lines r n ?cm ?fq i))
      = Some (n * n)"
    by (simp add: env_of_deployment length_enumerate_py l i)
  moreover have "env_of (deployment_lines r n ?cm ?fq i)
      = Some (map (\<lambda>k. [''SVC_'' @ fmt_0d 4 (int k),
                          CHR 0x22 # ''http://'' @ ?fq ! k @ '':8080/api'' @ [CHR 0x22]])
                [0..<nat (n * n)])"
    by (simp only: env_of_deployment env_fields_enumerate l)
  moreover have "int (length (volume_mount_entries ?cm)) = n * n"
    by (simp add: volume_mount_entries_def length_range_py l i)
  moreover have "int (length (volume_entries ?cm)) = n * n"
    by (simp add: volume_entries_def length_enumerate_py l i)
  moreover have "int (length (env_var_entries ?fq)) = n * n"
    by (simp add: env_var_entries_def length_enumerate_py l i)
  ultimately show ?thesis by (simp only: doc)
qed

theorem deployment_reference_counts_witness:
  "map_option (\<lambda>items. int (length items))
     (volume_mounts_of (documents (generate_release 0 2 (all_configmap_names 2) (all_service_fqdns 2))
        ! nat (2 * 2 + 1))) = Some (2 * 2)
   \<and> map_option (\<lambda>items. int (length items))
     (volumes_of (documents (generate_release 0 2 (all_configmap_names 2) (all_service_fqdns 2))
        ! nat (2 * 2 + 1))) = Some (2 * 2)
   \<and> map_option (\<lambda>items. int (length items))
     (env_of (documents (generate_release 0 2 (all_configmap_names 2) (all_service_fqdns 2))
        ! nat (2 * 2 + 1))) = Some (2 * 2)
   \<and> int (length (env_var_entries (all_service_fqdns 2))) = 2 * 2"
proof -
  have h: "(1::int) \<le> 2" "(0::int) \<le> 1" "(1::int) < 2" by simp_all
  from deployment_reference_counts [OF h, of 0] show ?thesis by blast
qed

subsection \<open>C3: the two name sequences, position by position\<close>

text \<open>
  Claim C3. For every \<open>n \<ge> 1\<close>, \<open>all_configmap_names n\<close> and \<open>all_service_fqdns n\<close> each
  have exactly \<open>n\<^sup>2\<close> elements, ordered release index major and per-release index minor:
  the element at position \<open>r * n + i\<close> is \<^verbatim>\<open>r{r:03d}-config-{i:03d}\<close>, respectively
  \<^verbatim>\<open>r{r:03d}-app-{i:03d}.default.svc.cluster.local\<close>, for all \<open>r\<close> and \<open>i\<close> in \<open>[0, n)\<close>.
\<close>

theorem name_derivation_positions:
  assumes "1 \<le> n"
  shows "int (length (all_configmap_names n)) = n * n
       \<and> int (length (all_service_fqdns n)) = n * n
       \<and> (\<forall>r i. 0 \<le> r \<and> r < n \<and> 0 \<le> i \<and> i < n \<longrightarrow>
            all_configmap_names n ! nat (r * n + i) = ''r'' @ fmt_0d 3 r @ ''-config-'' @ fmt_0d 3 i
          \<and> all_service_fqdns n ! nat (r * n + i)
              = ''r'' @ fmt_0d 3 r @ ''-app-'' @ fmt_0d 3 i @ ''.default.svc.cluster.local'')"
proof -
  have sq: "int (nat n * nat n) = n * n" using assms by simp
  have "int (length (all_configmap_names n)) = n * n"
    unfolding all_configmap_names_def length_pairs by (rule sq)
  moreover have "int (length (all_service_fqdns n)) = n * n"
    unfolding all_service_fqdns_def length_pairs by (rule sq)
  moreover have "all_configmap_names n ! nat (r * n + i) = ''r'' @ fmt_0d 3 r @ ''-config-'' @ fmt_0d 3 i"
    if "0 \<le> r" "r < n" "0 \<le> i" "i < n" for r i
    unfolding all_configmap_names_def using that by (rule nth_pairs)
  moreover have "all_service_fqdns n ! nat (r * n + i)
      = ''r'' @ fmt_0d 3 r @ ''-app-'' @ fmt_0d 3 i @ ''.default.svc.cluster.local''"
    if "0 \<le> r" "r < n" "0 \<le> i" "i < n" for r i
    unfolding all_service_fqdns_def using that by (rule nth_pairs)
  ultimately show ?thesis by blast
qed

theorem name_derivation_positions_witness:
  "(1::int) \<le> 2
   \<and> int (length (all_configmap_names 2)) = 2 * 2
   \<and> int (length (all_service_fqdns 2)) = 2 * 2
   \<and> all_configmap_names 2 ! nat (1 * 2 + 1) = ''r001-config-001''
   \<and> all_service_fqdns 2 ! nat (1 * 2 + 0) = ''r001-app-000.default.svc.cluster.local''"
proof -
  have h: "(1::int) \<le> 2" by simp
  have a: "fmt_0d 3 1 = ''001''" "fmt_0d 3 0 = ''000''" by code_simp+
  note t = name_derivation_positions [OF h]
  have l1: "int (length (all_configmap_names 2)) = 2 * 2" using t by (rule conjunct1)
  have l2: "int (length (all_service_fqdns 2)) = 2 * 2"
    using t by (rule conjunct1 [OF conjunct2])
  note p = t [THEN conjunct2, THEN conjunct2, rule_format]
  have p1: "all_configmap_names 2 ! nat (1 * 2 + 1) = ''r'' @ fmt_0d 3 1 @ ''-config-'' @ fmt_0d 3 1"
    by (rule p [of 1 1, THEN conjunct1]) simp
  have p2: "all_service_fqdns 2 ! nat (1 * 2 + 0)
      = ''r'' @ fmt_0d 3 1 @ ''-app-'' @ fmt_0d 3 0 @ ''.default.svc.cluster.local''"
    by (rule p [of 1 0, THEN conjunct2]) simp
  show ?thesis using h l1 l2 p1 p2 by (simp only: a) simp
qed

subsection \<open>C4: secret references stay inside the release\<close>

text \<open>
  Claim C4. For every \<open>n \<ge> 1\<close> and every release index \<open>r\<close>, each Deployment document of
  \<open>generate_release\<close> has exactly \<open>n\<close> envFrom secret references, one per Secret of the
  deployment's own release and none for the Secrets of the other releases: the \<open>j\<close>-th
  names \<^verbatim>\<open>r{r:03d}-secret-{j:03d}\<close>, for \<open>j\<close> in \<open>[0, n)\<close>. The list is read off the text of
  the document (first two conjuncts, for name lists without a line break) and counted on
  the items of the generator expression (the rest). The references are the \<open>n\<close> of the
  release and not the \<open>n\<^sup>2\<close> of the corpus; as numbers the two differ as soon as there is a
  second release, \<open>n \<ge> 2\<close>, and with a single release its one Secret is all there is.
\<close>

theorem env_from_own_release:
  assumes "1 \<le> n" "0 \<le> i" "i < n"
    and "\<forall>s \<in> set cm_names. CHR ''\<newline>'' \<notin> set s" "\<forall>s \<in> set fqdns. CHR ''\<newline>'' \<notin> set s"
  shows "env_from_of (documents (generate_release r n cm_names fqdns) ! nat (2 * n + i))
           = Some (map (\<lambda>j. [[], ''r'' @ fmt_0d 3 r @ ''-secret-'' @ fmt_0d 3 j]) (range_py n))
       \<and> map_option (\<lambda>items. int (length items))
           (env_from_of (documents (generate_release r n cm_names fqdns) ! nat (2 * n + i))) = Some n
       \<and> int (length (env_from_entries r n)) = n
       \<and> (\<forall>j. 0 \<le> j \<and> j < n \<longrightarrow>
            env_from_entries r n ! nat j
              = ''            - secretRef:\<newline>'' @ ''                name: r'' @ fmt_0d 3 r
                @ ''-secret-'' @ fmt_0d 3 j)
       \<and> (2 \<le> n \<longrightarrow> int (length (env_from_entries r n)) \<noteq> n * n)"
proof -
  have doc: "documents (generate_release r n cm_names fqdns) ! nat (2 * n + i)
      = deployment_lines r n cm_names fqdns i"
    using assms(2-5) by (rule deployment_document)
  have f: "env_from_fields r = (\<lambda>j. [[], ''r'' @ fmt_0d 3 r @ ''-secret-'' @ fmt_0d 3 j])"
    by (rule ext) (simp add: env_from_fields_def prefix_def)
  have "env_from_of (deployment_lines r n cm_names fqdns i)
      = Some (map (\<lambda>j. [[], ''r'' @ fmt_0d 3 r @ ''-secret-'' @ fmt_0d 3 j]) (range_py n))"
    by (simp only: env_from_of_deployment f)
  moreover have "map_option (\<lambda>items. int (length items))
      (env_from_of (deployment_lines r n cm_names fqdns i)) = Some n"
    using assms(1) by (simp add: env_from_of_deployment length_range_py)
  moreover have len: "int (length (env_from_entries r n)) = n"
    using assms(1) by (simp add: env_from_entries_def length_range_py)
  moreover have "env_from_entries r n ! nat j
      = ''            - secretRef:\<newline>'' @ ''                name: r'' @ fmt_0d 3 r
        @ ''-secret-'' @ fmt_0d 3 j" if "0 \<le> j \<and> j < n" for j
    using that by (simp add: env_from_entries_def length_range_py nth_range_py env_from_entry_def
        prefix_def)
  moreover have "int (length (env_from_entries r n)) \<noteq> n * n" if "2 \<le> n"
  proof -
    have "1 * n < n * n" using that by (intro mult_strict_right_mono) simp_all
    then have "n < n * n" by simp
    then have "n \<noteq> n * n" by (rule less_imp_neq)
    then show ?thesis unfolding len .
  qed
  ultimately show ?thesis by (simp only: doc) blast
qed

theorem env_from_own_release_witness:
  "env_from_of (documents (generate_release 1 2 (all_configmap_names 2) (all_service_fqdns 2))
       ! nat (2 * 2 + 0))
     = Some (map (\<lambda>j. [[], ''r'' @ fmt_0d 3 1 @ ''-secret-'' @ fmt_0d 3 j]) (range_py 2))
   \<and> int (length (env_from_entries 1 2)) = 2
   \<and> int (length (env_from_entries 1 2)) \<noteq> 2 * 2"
proof -
  have h: "(1::int) \<le> 2" "(0::int) \<le> 0" "(0::int) < 2"
    "\<forall>s \<in> set (all_configmap_names 2). CHR ''\<newline>'' \<notin> set s"
    "\<forall>s \<in> set (all_service_fqdns 2). CHR ''\<newline>'' \<notin> set s"
    by (simp_all add: names_no_newline)
  from env_from_own_release [OF h, of 1] show ?thesis by simp
qed

subsection \<open>C5: the documents of a release and their order\<close>

text \<open>
  Claim C5. For every \<open>n \<ge> 1\<close> and every release index \<open>r\<close>, the text \<open>generate_release\<close>
  returns is its \<open>4n + 1\<close> documents joined by the separator \<^verbatim>\<open>---\<close> on a line of its own:
  \<open>n\<close> ConfigMaps, then \<open>n\<close> Secrets, then \<open>n\<close> Deployments, then \<open>n\<close> Services, then one
  Ingress, whose rule has exactly \<open>n\<close> paths, the \<open>i\<close>-th routing \<^verbatim>\<open>/svc-{i:03d}\<close> to the
  service \<^verbatim>\<open>r{r:03d}-app-{i:03d}\<close> on port 8080.

  The first four conjuncts are about the list \<open>docs\<close> as the function builds it, for any two
  name lists. The last reads the text back, for name lists whose strings hold no line
  break (a name with a line break in it could itself contain a separator line): cutting
  the text at its \<^verbatim>\<open>---\<close> lines gives \<open>4n + 1\<close> documents, their \<^verbatim>\<open>kind\<close> keys are as listed,
  and the paths of the last document are the \<open>n\<close> expected ones.
\<close>

theorem release_documents:
  assumes "1 \<le> n"
  shows "generate_release r n cm_names fqdns = join ''---\<newline>'' (docs_of r n cm_names fqdns)
       \<and> int (length (docs_of r n cm_names fqdns)) = 4 * n + 1
       \<and> (\<forall>i. 0 \<le> i \<and> i < n \<longrightarrow>
              docs_of r n cm_names fqdns ! nat i = configmap_doc r i
            \<and> docs_of r n cm_names fqdns ! nat (n + i) = secret_doc r i
            \<and> docs_of r n cm_names fqdns ! nat (2 * n + i) = deployment_doc r n cm_names fqdns i
            \<and> docs_of r n cm_names fqdns ! nat (3 * n + i) = service_doc r i)
       \<and> docs_of r n cm_names fqdns ! nat (4 * n) = ingress_doc r n
       \<and> ((\<forall>s \<in> set cm_names \<union> set fqdns. CHR ''\<newline>'' \<notin> set s) \<longrightarrow>
              int (length (documents (generate_release r n cm_names fqdns))) = 4 * n + 1
            \<and> map kinds_of (documents (generate_release r n cm_names fqdns))
                = replicate (nat n) [''ConfigMap''] @ replicate (nat n) [''Secret'']
                  @ replicate (nat n) [''Deployment''] @ replicate (nat n) [''Service'']
                  @ [[''Ingress'']]
            \<and> paths_of (last (documents (generate_release r n cm_names fqdns)))
                = Some (map (\<lambda>i. [''/svc-'' @ fmt_0d 3 i, ''Prefix'', [], [],
                                    ''r'' @ fmt_0d 3 r @ ''-app-'' @ fmt_0d 3 i, [], ''8080''])
                          (range_py n))
            \<and> map_option (\<lambda>items. int (length items))
                (paths_of (last (documents (generate_release r n cm_names fqdns)))) = Some n)"
proof -
  have a: "generate_release r n cm_names fqdns = join ''---\<newline>'' (docs_of r n cm_names fqdns)"
    by (simp add: generate_release_def)
  have b: "int (length (docs_of r n cm_names fqdns)) = 4 * n + 1"
    using assms by (simp add: length_docs_of)
  have c: "docs_of r n cm_names fqdns ! nat i = configmap_doc r i
        \<and> docs_of r n cm_names fqdns ! nat (n + i) = secret_doc r i
        \<and> docs_of r n cm_names fqdns ! nat (2 * n + i) = deployment_doc r n cm_names fqdns i
        \<and> docs_of r n cm_names fqdns ! nat (3 * n + i) = service_doc r i"
    if "0 \<le> i \<and> i < n" for i
    using that by (simp add: docs_of_nth)
  have d: "docs_of r n cm_names fqdns ! nat (4 * n) = ingress_doc r n"
    using assms by (intro docs_of_last) simp
  have e: "int (length (documents (generate_release r n cm_names fqdns))) = 4 * n + 1
        \<and> map kinds_of (documents (generate_release r n cm_names fqdns))
            = replicate (nat n) [''ConfigMap''] @ replicate (nat n) [''Secret'']
              @ replicate (nat n) [''Deployment''] @ replicate (nat n) [''Service'']
              @ [[''Ingress'']]
        \<and> paths_of (last (documents (generate_release r n cm_names fqdns)))
            = Some (map (\<lambda>i. [''/svc-'' @ fmt_0d 3 i, ''Prefix'', [], [],
                                ''r'' @ fmt_0d 3 r @ ''-app-'' @ fmt_0d 3 i, [], ''8080''])
                      (range_py n))
        \<and> map_option (\<lambda>items. int (length items))
            (paths_of (last (documents (generate_release r n cm_names fqdns)))) = Some n"
    if nl: "\<forall>s \<in> set cm_names \<union> set fqdns. CHR ''\<newline>'' \<notin> set s"
  proof -
    have doc: "documents (generate_release r n cm_names fqdns) = release_lines r n cm_names fqdns"
      using nl by (intro documents_generate_release) auto
    have f: "path_fields r = (\<lambda>i. [''/svc-'' @ fmt_0d 3 i, ''Prefix'', [], [],
        ''r'' @ fmt_0d 3 r @ ''-app-'' @ fmt_0d 3 i, [], ''8080''])"
      by (rule ext) (simp add: path_fields_def prefix_def)
    have "int (length (release_lines r n cm_names fqdns)) = 4 * n + 1"
      using assms by (simp add: release_lines_def length_range_py)
    moreover have "paths_of (last (release_lines r n cm_names fqdns))
        = Some (map (\<lambda>i. [''/svc-'' @ fmt_0d 3 i, ''Prefix'', [], [],
                            ''r'' @ fmt_0d 3 r @ ''-app-'' @ fmt_0d 3 i, [], ''8080''])
                  (range_py n))"
      by (simp only: release_lines_last paths_of_ingress f)
    moreover have "map_option (\<lambda>items. int (length items))
        (paths_of (last (release_lines r n cm_names fqdns))) = Some n"
      using assms by (simp add: release_lines_last paths_of_ingress length_range_py)
    ultimately show ?thesis by (simp only: doc kinds_of_release)
  qed
  show ?thesis using a b c d e by blast
qed

theorem release_documents_witness:
  "generate_release 1 2 (all_configmap_names 2) (all_service_fqdns 2)
     = join ''---\<newline>'' (docs_of 1 2 (all_configmap_names 2) (all_service_fqdns 2))
   \<and> int (length (docs_of 1 2 (all_configmap_names 2) (all_service_fqdns 2))) = 4 * 2 + 1
   \<and> int (length (documents (generate_release 1 2 (all_configmap_names 2) (all_service_fqdns 2))))
       = 4 * 2 + 1
   \<and> map kinds_of (documents (generate_release 1 2 (all_configmap_names 2) (all_service_fqdns 2)))
       = replicate (nat 2) [''ConfigMap''] @ replicate (nat 2) [''Secret'']
         @ replicate (nat 2) [''Deployment''] @ replicate (nat 2) [''Service''] @ [[''Ingress'']]
   \<and> map_option (\<lambda>items. int (length items))
       (paths_of (last (documents (generate_release 1 2 (all_configmap_names 2) (all_service_fqdns 2)))))
       = Some 2"
proof -
  have h: "(1::int) \<le> 2" by simp
  have nl: "\<forall>s \<in> set (all_configmap_names 2) \<union> set (all_service_fqdns 2). CHR ''\<newline>'' \<notin> set s"
    by (auto simp: names_no_newline)
  from release_documents [OF h, of 1 "all_configmap_names 2" "all_service_fqdns 2"] nl
  show ?thesis by blast
qed

subsection \<open>C6: the output is a function of the scale alone\<close>

text \<open>
  Claim C6. Two evaluations of the pipeline with the same \<open>n\<close> give byte-identical text
  for every release. Two calls of \<open>generate_release\<close> that are handed lists with the same
  contents return the same text, whatever else their heaps hold and wherever the lists
  live; and the texts \<open>main\<close> writes, release by release, do not depend on the output
  directory: they are \<open>generate_release r n\<close> on the two name sequences of \<open>n\<close>.
\<close>

theorem output_deterministic:
  assumes "cm1 < length h1" "fq1 < length h1" "cm2 < length h2" "fq2 < length h2"
    and "h1 ! cm1 = h2 ! cm2" "h1 ! fq1 = h2 ! fq2"
  shows "fst (generate_release_st r n cm1 fq1 h1) = fst (generate_release_st r n cm2 fq2 h2)
       \<and> map snd (written (events (main n output1))) = map snd (written (events (main n output2)))
       \<and> map snd (written (events (main n output1)))
           = map (\<lambda>r. generate_release r n (all_configmap_names n) (all_service_fqdns n)) (range_py n)"
  using assms
  by (simp add: generate_release_st_eq [OF assms(1,2)] generate_release_st_eq [OF assms(3,4)]
      written_main)

theorem output_deterministic_witness:
  "fst (generate_release_st 1 2 0 1 [all_configmap_names 2, all_service_fqdns 2])
     = fst (generate_release_st 1 2 2 1 [[''other''], all_service_fqdns 2, all_configmap_names 2])
   \<and> map snd (written (events (main 2 None))) = map snd (written (events (main 2 (Some ''/tmp/x''))))
   \<and> map snd (written (events (main 2 None)))
       = map (\<lambda>r. generate_release r 2 (all_configmap_names 2) (all_service_fqdns 2)) (range_py 2)"
proof -
  have h: "(0::nat) < length [all_configmap_names 2, all_service_fqdns 2]"
    "(1::nat) < length [all_configmap_names 2, all_service_fqdns 2]"
    "(2::nat) < length [[''other''], all_service_fqdns 2, all_configmap_names 2]"
    "(1::nat) < length [[''other''], all_service_fqdns 2, all_configmap_names 2]"
    "[all_configmap_names 2, all_service_fqdns 2] ! 0
       = [[''other''], all_service_fqdns 2, all_configmap_names 2] ! 2"
    "[all_configmap_names 2, all_service_fqdns 2] ! 1
       = [[''other''], all_service_fqdns 2, all_configmap_names 2] ! 1"
    by simp_all
  show ?thesis
    by (rule output_deterministic [OF h])
qed

subsection \<open>C7: the naming scheme is injective\<close>

text \<open>
  Claim C7. For every \<open>n\<close>, distinct pairs \<open>(r, i)\<close> with \<open>r\<close> and \<open>i\<close> in \<open>[0, n)\<close> give
  distinct ConfigMap names and distinct service FQDNs, and neither sequence repeats an
  element. There is no bound on \<open>n\<close>: the statement covers indices of four and more
  digits, where the \<^verbatim>\<open>03d\<close> padding no longer pads. The dash after the release number
  is not a digit, so the release number can always be read back.
\<close>

theorem names_injective:
  assumes "0 \<le> r" "r < n" "0 \<le> i" "i < n" "0 \<le> r'" "r' < n" "0 \<le> i'" "i' < n"
    and "(r, i) \<noteq> (r', i')"
  shows "all_configmap_names n ! nat (r * n + i) \<noteq> all_configmap_names n ! nat (r' * n + i')
       \<and> all_service_fqdns n ! nat (r * n + i) \<noteq> all_service_fqdns n ! nat (r' * n + i')
       \<and> distinct (all_configmap_names n) \<and> distinct (all_service_fqdns n)"
proof -
  have c1: "all_configmap_names n ! nat (r * n + i) = ''r'' @ fmt_0d 3 r @ ''-config-'' @ fmt_0d 3 i"
    unfolding all_configmap_names_def using assms(1-4) by (rule nth_pairs)
  have c2: "all_configmap_names n ! nat (r' * n + i') = ''r'' @ fmt_0d 3 r' @ ''-config-'' @ fmt_0d 3 i'"
    unfolding all_configmap_names_def using assms(5-8) by (rule nth_pairs)
  have s1: "all_service_fqdns n ! nat (r * n + i)
      = ''r'' @ fmt_0d 3 r @ ''-app-'' @ fmt_0d 3 i @ ''.default.svc.cluster.local''"
    unfolding all_service_fqdns_def using assms(1-4) by (rule nth_pairs)
  have s2: "all_service_fqdns n ! nat (r' * n + i')
      = ''r'' @ fmt_0d 3 r' @ ''-app-'' @ fmt_0d 3 i' @ ''.default.svc.cluster.local''"
    unfolding all_service_fqdns_def using assms(5-8) by (rule nth_pairs)
  have "all_configmap_names n ! nat (r * n + i) \<noteq> all_configmap_names n ! nat (r' * n + i')"
  proof
    assume "all_configmap_names n ! nat (r * n + i) = all_configmap_names n ! nat (r' * n + i')"
    then have "''r'' @ fmt_0d 3 r @ ''-config-'' @ fmt_0d 3 i = ''r'' @ fmt_0d 3 r' @ ''-config-'' @ fmt_0d 3 i'"
      by (simp only: c1 c2)
    then have "r = r' \<and> i = i'"
      using assms(1,5,3,7) by (intro configmap_name_inj)
    with assms(9) show False by simp
  qed
  moreover have "all_service_fqdns n ! nat (r * n + i) \<noteq> all_service_fqdns n ! nat (r' * n + i')"
  proof
    assume "all_service_fqdns n ! nat (r * n + i) = all_service_fqdns n ! nat (r' * n + i')"
    then have "''r'' @ fmt_0d 3 r @ ''-app-'' @ fmt_0d 3 i @ ''.default.svc.cluster.local''
        = ''r'' @ fmt_0d 3 r' @ ''-app-'' @ fmt_0d 3 i' @ ''.default.svc.cluster.local''"
      by (simp only: s1 s2)
    then have "r = r' \<and> i = i'"
      using assms(1,5,3,7) by (intro service_fqdn_inj)
    with assms(9) show False by simp
  qed
  moreover have "distinct (all_configmap_names n)"
    unfolding all_configmap_names_def by (rule distinct_pairs) (rule configmap_name_inj)
  moreover have "distinct (all_service_fqdns n)"
    unfolding all_service_fqdns_def by (rule distinct_pairs) (rule service_fqdn_inj)
  ultimately show ?thesis by blast
qed

theorem names_injective_witness:
  "all_configmap_names 1001 ! nat (1000 * 1001 + 0) \<noteq> all_configmap_names 1001 ! nat (100 * 1001 + 0)
   \<and> all_service_fqdns 1001 ! nat (1000 * 1001 + 0) \<noteq> all_service_fqdns 1001 ! nat (100 * 1001 + 0)
   \<and> distinct (all_configmap_names 1001) \<and> distinct (all_service_fqdns 1001)"
proof -
  have h: "(0::int) \<le> 1000" "(1000::int) < 1001" "(0::int) \<le> 0" "(0::int) < 1001"
    "(0::int) \<le> 100" "(100::int) < 1001" "(1000::int, 0::int) \<noteq> (100, 0)"
    by simp_all
  show ?thesis
    by (rule names_injective [OF h(1) h(2) h(3) h(4) h(5) h(6) h(3) h(4) h(7)])
qed

subsection \<open>C8: generate_release leaves the two shared lists alone\<close>

text \<open>
  Claim C8. \<open>generate_release\<close> leaves its \<open>cm_names\<close> and \<open>fqdns\<close> arguments unchanged.
  On the heap: whatever the release index, the scale and the two list objects passed
  (they may even be one and the same object), every list object that existed before the
  call holds after it what it held before, the two arguments among them, and the text
  returned is the text computed from their contents. The same holds across the whole
  loop over the releases: the two lists are unchanged at its end, and every release was
  assembled from the same two sequences. So a second call, made for any other release on
  the heap the first call left behind, gives its Deployments the same environment
  variables, the same volumeMounts and the same volumes as the first (read back from the
  two texts, for lists of names without a line break).
\<close>

theorem generate_release_frame:
  assumes "cm_names < length h" "fqdns < length h"
  shows "(\<forall>a < length h. snd (generate_release_st r n cm_names fqdns h) ! a = h ! a)
       \<and> snd (generate_release_st r n cm_names fqdns h) ! cm_names = h ! cm_names
       \<and> snd (generate_release_st r n cm_names fqdns h) ! fqdns = h ! fqdns
       \<and> fst (generate_release_st r n cm_names fqdns h) = generate_release r n (h ! cm_names) (h ! fqdns)
       \<and> snd (write_releases n output cm_names fqdns (ev, h)) ! cm_names = h ! cm_names
       \<and> snd (write_releases n output cm_names fqdns (ev, h)) ! fqdns = h ! fqdns
       \<and> map snd (written (fst (write_releases n output cm_names fqdns (ev, h))))
           = map snd (written ev)
             @ map (\<lambda>r. generate_release r n (h ! cm_names) (h ! fqdns)) (range_py n)
       \<and> ((\<forall>s \<in> set (h ! cm_names) \<union> set (h ! fqdns). CHR ''\<newline>'' \<notin> set s)
            \<and> 0 \<le> i \<and> i < n \<and> 0 \<le> i' \<and> i' < n \<longrightarrow>
            env_of (documents (fst (generate_release_st r n cm_names fqdns h)) ! nat (2 * n + i))
              = env_of (documents (fst (generate_release_st r' n cm_names fqdns
                    (snd (generate_release_st r n cm_names fqdns h)))) ! nat (2 * n + i'))
          \<and> volume_mounts_of (documents (fst (generate_release_st r n cm_names fqdns h)) ! nat (2 * n + i))
              = volume_mounts_of (documents (fst (generate_release_st r' n cm_names fqdns
                    (snd (generate_release_st r n cm_names fqdns h)))) ! nat (2 * n + i'))
          \<and> volumes_of (documents (fst (generate_release_st r n cm_names fqdns h)) ! nat (2 * n + i))
              = volumes_of (documents (fst (generate_release_st r' n cm_names fqdns
                    (snd (generate_release_st r n cm_names fqdns h)))) ! nat (2 * n + i')))"
proof -
  let ?cm = "h ! cm_names" and ?fq = "h ! fqdns"
  let ?k = "snd (generate_release_st r n cm_names fqdns h)"
  have frame: "?k ! a = h ! a" if "a < length h" for a
    using that by (simp add: generate_release_st_eq [OF assms] nth_append)
  have out1: "fst (generate_release_st r n cm_names fqdns h) = generate_release r n ?cm ?fq"
    by (simp add: generate_release_st_eq [OF assms])
  have lt': "cm_names < length ?k" "fqdns < length ?k"
    using assms by (simp_all add: generate_release_st_eq [OF assms])
  have out2: "fst (generate_release_st r' n cm_names fqdns ?k) = generate_release r' n ?cm ?fq"
    using frame [OF assms(1)] frame [OF assms(2)]
    by (simp add: generate_release_st_eq [OF lt'])
  have loop: "snd (write_releases n output cm_names fqdns (ev, h)) ! cm_names = ?cm"
    "snd (write_releases n output cm_names fqdns (ev, h)) ! fqdns = ?fq"
    using assms by (simp_all add: write_releases_def foldl_write_release nth_append)
  have texts: "map snd (written (fst (write_releases n output cm_names fqdns (ev, h))))
      = map snd (written ev) @ map (\<lambda>r. generate_release r n ?cm ?fq) (range_py n)"
    by (simp add: write_releases_def foldl_write_release [OF assms] written_append
        written_release_events)
  have same: "env_of (documents (fst (generate_release_st r n cm_names fqdns h)) ! nat (2 * n + i))
        = env_of (documents (fst (generate_release_st r' n cm_names fqdns ?k)) ! nat (2 * n + i'))
      \<and> volume_mounts_of (documents (fst (generate_release_st r n cm_names fqdns h)) ! nat (2 * n + i))
        = volume_mounts_of (documents (fst (generate_release_st r' n cm_names fqdns ?k)) ! nat (2 * n + i'))
      \<and> volumes_of (documents (fst (generate_release_st r n cm_names fqdns h)) ! nat (2 * n + i))
        = volumes_of (documents (fst (generate_release_st r' n cm_names fqdns ?k)) ! nat (2 * n + i'))"
    if c: "(\<forall>s \<in> set ?cm \<union> set ?fq. CHR ''\<newline>'' \<notin> set s) \<and> 0 \<le> i \<and> i < n \<and> 0 \<le> i' \<and> i' < n"
  proof -
    have nl: "\<forall>s \<in> set ?cm. CHR ''\<newline>'' \<notin> set s" "\<forall>s \<in> set ?fq. CHR ''\<newline>'' \<notin> set s"
      using c by auto
    have d: "documents (generate_release r n ?cm ?fq) ! nat (2 * n + i) = deployment_lines r n ?cm ?fq i"
      using c nl by (intro deployment_document) auto
    have d': "documents (generate_release r' n ?cm ?fq) ! nat (2 * n + i') = deployment_lines r' n ?cm ?fq i'"
      using c nl by (intro deployment_document) auto
    show ?thesis
      by (simp only: out1 out2 d d' env_of_deployment volume_mounts_of_deployment
          volumes_of_deployment)
  qed
  show ?thesis using frame assms out1 loop texts same by blast
qed

theorem generate_release_frame_witness:
  "snd (generate_release_st 0 1 0 1 [[''a''], [''b'']]) ! 0 = [''a'']
   \<and> snd (generate_release_st 0 1 0 1 [[''a''], [''b'']]) ! 1 = [''b'']
   \<and> fst (generate_release_st 0 1 0 1 [[''a''], [''b'']]) = generate_release 0 1 [''a''] [''b'']
   \<and> snd (generate_release_st 1 2 0 0 [[''a'']]) ! 0 = [''a'']
   \<and> volumes_of (documents (fst (generate_release_st 0 1 0 1 [[''a''], [''b'']])) ! nat (2 * 1 + 0))
       = volumes_of (documents (fst (generate_release_st 5 1 0 1
             (snd (generate_release_st 0 1 0 1 [[''a''], [''b'']])))) ! nat (2 * 1 + 0))"
proof -
  have h: "(0::nat) < length [[''a''], [''b'']]" "(1::nat) < length [[''a''], [''b'']]"
    "(0::nat) < length [[''a'']]"
    by simp_all
  have c: "(\<forall>s \<in> set ([[''a''], [''b'']] ! 0) \<union> set ([[''a''], [''b'']] ! 1). CHR ''\<newline>'' \<notin> set s)
    \<and> (0::int) \<le> 0 \<and> (0::int) < 1 \<and> (0::int) \<le> 0 \<and> (0::int) < 1"
    by simp
  note t = generate_release_frame [OF h(1) h(2), of 0 1 "[]" "[]" 0 0 5]
  have v: "volumes_of (documents (fst (generate_release_st 0 1 0 1 [[''a''], [''b'']])) ! nat (2 * 1 + 0))
       = volumes_of (documents (fst (generate_release_st 5 1 0 1
             (snd (generate_release_st 0 1 0 1 [[''a''], [''b'']])))) ! nat (2 * 1 + 0))"
    using t c by blast
  show ?thesis
    using t v generate_release_frame [OF h(3) h(3), of 1 2 "[]" "[]" 0 0 0]
    by simp
qed

subsection \<open>C9: a scale below one is rejected before anything is written\<close>

text \<open>
  Claim C9. For every integer \<open>n < 1\<close>, \<open>main\<close> prints a diagnostic to the error stream and
  ends with exit status 1, and that is all it does: no directory is created and no file
  is written.
\<close>

theorem main_rejects_small_n:
  assumes "n < 1"
  shows "exit_status (main n output_arg) = 1
       \<and> exit_status (main n output_arg) \<noteq> 0
       \<and> events (main n output_arg) = [Print_stderr ''Error: n must be >= 1'']
       \<and> stderr_lines (events (main n output_arg)) = [''Error: n must be >= 1'']
       \<and> (\<forall>e \<in> set (events (main n output_arg)). \<not> touches_filesystem e)
       \<and> written (events (main n output_arg)) = []"
  using assms by (simp add: main_def)

theorem main_rejects_small_n_witness:
  "exit_status (main 0 None) = 1
   \<and> events (main 0 None) = [Print_stderr ''Error: n must be >= 1'']
   \<and> exit_status (main (- 1) (Some ''/tmp/out'')) = 1
   \<and> events (main (- 1) (Some ''/tmp/out'')) = [Print_stderr ''Error: n must be >= 1'']
   \<and> written (events (main (- 1) (Some ''/tmp/out''))) = []"
  using main_rejects_small_n [of 0 None] main_rejects_small_n [of "- 1" "Some ''/tmp/out''"]
  by simp

subsection \<open>C10: name derivation on a scale below one\<close>

text \<open>
  Claim C10. For every integer \<open>n \<le> 0\<close>, \<open>all_configmap_names n\<close> and \<open>all_service_fqdns n\<close>
  return the empty list. The two functions have no error branch at all (\<^verbatim>\<open>range\<close> of a
  non-positive number is empty and formatting an int cannot fail), so they are total over
  the integers; rejecting such an \<open>n\<close> is left to \<open>main\<close>.
\<close>

theorem name_derivation_total:
  assumes "n \<le> 0"
  shows "all_configmap_names n = [] \<and> all_service_fqdns n = []"
  using assms by (simp add: all_configmap_names_def all_service_fqdns_def range_py_nonpos)

theorem name_derivation_total_witness:
  "all_configmap_names 0 = [] \<and> all_service_fqdns 0 = []
   \<and> all_configmap_names (- 1) = [] \<and> all_service_fqdns (- 1) = []"
  using name_derivation_total [of 0] name_derivation_total [of "- 1"] by simp

end
